theory Spec2Isabelle
  imports Main
begin

section \<open>Strings\<close>

text \<open>
  A JavaScript string is a sequence of UTF-16 code units. It is modelled as a
  \<^typ>\<open>string\<close>; the character with number \<open>n\<close> stands for the code unit \<open>n\<close>, so the
  model covers the strings whose code units are below 256. Every character the
  source tests for (\<open>!\<close>, \<open>:\<close>, brackets, parentheses, quotes, backslash, space) is in
  that range.
\<close>

text \<open>The characters that \<open>String.prototype.trim\<close> strips and that \<open>\s\<close> matches,
  among the code units below 256: TAB, LF, VT, FF, CR, SPACE and NBSP.\<close>

definition isWhiteSpace :: "char \<Rightarrow> bool" where
  "isWhiteSpace c =
     (c = CHR 0x09 \<or> c = CHR 0x0A \<or> c = CHR 0x0B \<or> c = CHR 0x0C \<or> c = CHR 0x0D
      \<or> c = CHR '' '' \<or> c = CHR 0xA0)"

text \<open>\<open>value.trim()\<close>\<close>

definition trim :: "string \<Rightarrow> string" where
  "trim s = rev (dropWhile isWhiteSpace (rev (dropWhile isWhiteSpace s)))"

text \<open>
  \<open>s.replace(WHITESPACE_RE, ' ')\<close> with \<open>WHITESPACE_RE = /\s+/\<close>. The expression has
  no \<open>g\<close> flag, so \<open>replace\<close> rewrites the leftmost match only: the first maximal
  run of white space. A string without white space is returned as it is.
\<close>

definition replace_WHITESPACE_RE :: "string \<Rightarrow> string" where
  "replace_WHITESPACE_RE s =
     (case dropWhile (\<lambda>c. \<not> isWhiteSpace c) s of
        [] \<Rightarrow> s
      | r # rs \<Rightarrow> takeWhile (\<lambda>c. \<not> isWhiteSpace c) s @ '' '' @ dropWhile isWhiteSpace (r # rs))"

definition collapseWhitespace :: "string \<Rightarrow> string" where
  "collapseWhitespace v = replace_WHITESPACE_RE (trim v)"

text \<open>\<open>s.split(' ')\<close>: the pieces between single spaces, empty pieces included.\<close>

fun split_space :: "string \<Rightarrow> string list" where
  "split_space [] = [[]]"
| "split_space (c # cs) =
     (if c = CHR '' '' then [] # split_space cs
      else (case split_space cs of
              [] \<Rightarrow> [[c]]
            | p # ps \<Rightarrow> (c # p) # ps))"

text \<open>\<open>xs.join(' ')\<close>\<close>

fun join_space :: "string list \<Rightarrow> string" where
  "join_space [] = []"
| "join_space [x] = x"
| "join_space (x # y # ys) = x @ '' '' @ join_space (y # ys)"

text \<open>\<open>collapsed.split(' ').filter(Boolean)\<close>: the empty string is the only falsy string.\<close>

definition tokens_of :: "string \<Rightarrow> string list" where
  "tokens_of collapsed = filter (\<lambda>t. t \<noteq> []) (split_space collapsed)"

section \<open>Token normalisation\<close>

definition removeImportantPrefix :: "string \<Rightarrow> bool \<times> string" where
  "removeImportantPrefix token =
     (case token of
        [] \<Rightarrow> (False, token)
      | c # rest \<Rightarrow> if c = CHR ''!'' then (True, rest) else (False, token))"

text \<open>
  The loop of \<open>stripVariants\<close> runs \<open>i\<close> from \<open>token.length - 1\<close> down to \<open>0\<close>. The
  model counts \<open>n = i + 1\<close>, the number of characters not yet visited, so that the
  index read, \<open>token ! i\<close>, is always in range.
\<close>

fun stripVariants_loop :: "string \<Rightarrow> nat \<Rightarrow> nat \<Rightarrow> string" where
  "stripVariants_loop token 0 depth = token"
| "stripVariants_loop token (Suc i) depth =
     (let char = token ! i in
      if char = CHR '']'' then stripVariants_loop token i (depth + 1)
      else if char = CHR ''['' then
        (if depth > 0 then stripVariants_loop token i (depth - 1)
         else stripVariants_loop token i depth)
      else if char = CHR '':'' \<and> depth = 0 then drop (i + 1) token
      else stripVariants_loop token i depth)"

definition stripVariants :: "string \<Rightarrow> string" where
  "stripVariants token = stripVariants_loop token (length token) 0"

section \<open>The regular-expression engine\<close>

text \<open>
  The source builds its matchers with \<open>new RegExp(pattern)\<close> and runs them with
  \<open>test\<close> and \<open>exec\<close>. The engine belongs to the JavaScript runtime, not to the
  repository, so it is a parameter of the model: an \<open>engine\<close> maps a pattern source
  to \<open>None\<close> (the constructor throws \<open>SyntaxError\<close>) or to the compiled pattern.

  A compiled pattern is its matcher: given the subject string and a start index it
  answers whether the pattern matches starting exactly there, and if so returns the
  number of code units matched and, when capture group 1 took part in the match,
  the index and length of what it captured. Searching (\<open>exec\<close>, \<open>test\<close>) is defined
  on top of the matcher as ECMAScript's \<open>RegExpBuiltinExec\<close> does: try the start
  indices from \<open>lastIndex\<close> up to the length of the string, in order.
\<close>

type_synonym RegExp = "string \<Rightarrow> nat \<Rightarrow> (nat \<times> (nat \<times> nat) option) option"

type_synonym engine = "string \<Rightarrow> RegExp option"

text \<open>
  The array \<open>exec\<close> returns: \<open>index\<close>, element 0 (the text matched) and element 1
  (the text of capture group 1, \<open>undefined\<close> when the pattern has no such group or the
  group did not take part). \<open>m_group1_index\<close> is where group 1 captured; a
  JavaScript program cannot read it from the array (the patterns are compiled
  without the \<open>d\<close> flag), and no definition of the model reads it either: it is
  there for statements about the position of a capture.
\<close>

record RegExpExecArray =
  m_index :: nat
  m_full :: string
  m_group1 :: "string option"
  m_group1_index :: "nat option"

fun search_from :: "RegExp \<Rightarrow> string \<Rightarrow> nat \<Rightarrow> nat \<Rightarrow> RegExpExecArray option" where
  "search_from r text i 0 = None"
| "search_from r text i (Suc n) =
     (case r text i of
        Some (len, cap) \<Rightarrow>
          Some \<lparr> m_index = i,
                 m_full = take len (drop i text),
                 m_group1 = map_option (\<lambda>(s, k). take k (drop s text)) cap,
                 m_group1_index = map_option fst cap \<rparr>
      | None \<Rightarrow> search_from r text (Suc i) n)"

text \<open>\<open>regex.exec(text)\<close> for a pattern with the \<open>g\<close> flag whose \<open>lastIndex\<close> is
  the third argument. After a match the engine sets \<open>lastIndex\<close> to the end of the
  match, \<open>m_index m + length (m_full m)\<close>.\<close>

definition RegExp_exec :: "RegExp \<Rightarrow> string \<Rightarrow> nat \<Rightarrow> RegExpExecArray option" where
  "RegExp_exec r text lastIndex =
     (if lastIndex > length text then None
      else search_from r text lastIndex (Suc (length text - lastIndex)))"

definition end_index :: "RegExpExecArray \<Rightarrow> nat" where
  "end_index m = m_index m + length (m_full m)"

text \<open>\<open>regex.test(token)\<close> for a pattern without flags: a search from index 0.\<close>

definition RegExp_test :: "RegExp \<Rightarrow> string \<Rightarrow> bool" where
  "RegExp_test r token = (search_from r token 0 (Suc (length token)) \<noteq> None)"

section \<open>Group registry\<close>

record TailwindGroupDefinition =
  name :: string
  matchers :: "string list"

record CompiledGroupDefinition =
  cg_name :: string
  weight :: nat
  regexes :: "RegExp list"

text \<open>
  What compilation can throw. \<open>SyntaxError\<close> is the error of \<open>new RegExp\<close>; its
  message quotes the pattern source. \<open>PatternCompileError\<close> is the error the
  specification describes, carrying a group name and a pattern; the source has no
  such error and no definition below produces it.
\<close>

datatype error = SyntaxError string | PatternCompileError string string

text \<open>\<open>definition.matchers.map(pattern => new RegExp(pattern))\<close>: the first
  pattern the engine rejects throws.\<close>

fun compile_matchers :: "engine \<Rightarrow> string list \<Rightarrow> error + RegExp list" where
  "compile_matchers E [] = Inr []"
| "compile_matchers E (pattern # ps) =
     (case E pattern of
        None \<Rightarrow> Inl (SyntaxError pattern)
      | Some r \<Rightarrow>
          (case compile_matchers E ps of
             Inl e \<Rightarrow> Inl e
           | Inr rs \<Rightarrow> Inr (r # rs)))"

text \<open>\<open>definitions.map((definition, index) => ...)\<close>, from position \<open>index\<close> on.\<close>

fun compile_from :: "engine \<Rightarrow> nat \<Rightarrow> TailwindGroupDefinition list \<Rightarrow> error + CompiledGroupDefinition list" where
  "compile_from E index [] = Inr []"
| "compile_from E index (definition # ds) =
     (case compile_matchers E (matchers definition) of
        Inl e \<Rightarrow> Inl e
      | Inr rs \<Rightarrow>
          (case compile_from E (Suc index) ds of
             Inl e \<Rightarrow> Inl e
           | Inr gs \<Rightarrow> Inr (\<lparr> cg_name = name definition, weight = index, regexes = rs \<rparr> # gs)))"

definition compileGroupDefinitions :: "engine \<Rightarrow> TailwindGroupDefinition list \<Rightarrow> error + CompiledGroupDefinition list" where
  "compileGroupDefinitions E definitions = compile_from E 0 definitions"

text \<open>\<open>group.regexes.some(regex => regex.test(token))\<close>\<close>

fun some_regex :: "RegExp list \<Rightarrow> string \<Rightarrow> bool" where
  "some_regex [] token = False"
| "some_regex (regex # rs) token = (if RegExp_test regex token then True else some_regex rs token)"

text \<open>The \<open>for\<close> loop of \<open>resolveGroupWeight\<close>: the weight of the first group one of
  whose patterns matches, \<open>None\<close> when the loop runs to its end.\<close>

fun resolve_loop :: "string \<Rightarrow> CompiledGroupDefinition list \<Rightarrow> nat option" where
  "resolve_loop token [] = None"
| "resolve_loop token (g # gs) =
     (if some_regex (regexes g) token then Some (weight g) else resolve_loop token gs)"

definition resolveGroupWeight :: "string \<Rightarrow> CompiledGroupDefinition list \<Rightarrow> nat" where
  "resolveGroupWeight token compiledGroups =
     (case resolve_loop token compiledGroups of
        Some w \<Rightarrow> w
      | None \<Rightarrow> length compiledGroups)"

section \<open>Normalised tokens and the comparator\<close>

record NormalizedToken =
  important :: bool
  base :: string
  groupWeight :: nat

type_synonym cache = "string \<rightharpoonup> NormalizedToken"

text \<open>\<open>normalizeToken\<close> reads and fills the cache; the model returns the cache it
  leaves behind.\<close>

definition normalizeToken :: "string \<Rightarrow> CompiledGroupDefinition list \<Rightarrow> cache \<Rightarrow> NormalizedToken \<times> cache" where
  "normalizeToken token compiledGroups cache =
     (case cache token of
        Some cached \<Rightarrow> (cached, cache)
      | None \<Rightarrow>
          (let importantStrip = removeImportantPrefix token;
               b = stripVariants (snd importantStrip);
               w = resolveGroupWeight b compiledGroups;
               normalized = \<lparr> important = fst importantStrip, base = b, groupWeight = w \<rparr>
           in (normalized, cache(token \<mapsto> normalized))))"

text \<open>
  \<open>String.prototype.localeCompare\<close> depends on the runtime's locale data; it is the
  parameter \<open>lc\<close>, a function from two strings to a negative, zero or positive
  integer.
\<close>

type_synonym localeCompare = "string \<Rightarrow> string \<Rightarrow> int"

definition compareClasses :: "localeCompare \<Rightarrow> string \<Rightarrow> string \<Rightarrow> CompiledGroupDefinition list \<Rightarrow> cache \<Rightarrow> int \<times> cache" where
  "compareClasses lc a b compiledGroups cache =
     (let (normalizedA, cache1) = normalizeToken a compiledGroups cache;
          (normalizedB, cache2) = normalizeToken b compiledGroups cache1
      in (if groupWeight normalizedA \<noteq> groupWeight normalizedB
          then int (groupWeight normalizedA) - int (groupWeight normalizedB)
          else (let baseComparison = lc (base normalizedA) (base normalizedB)
                in if baseComparison \<noteq> 0 then baseComparison
                   else if important normalizedA \<noteq> important normalizedB
                   then (if important normalizedA then 1 else - 1)
                   else lc a b),
          cache2))"

section \<open>Sorting\<close>

text \<open>
  \<open>[...tokens].sort(comparator)\<close>. ECMAScript requires the sort to be stable and,
  for a comparator that is a consistent ordering, to return the sorted list; the
  algorithm itself is the runtime's. The model is a stable insertion sort that
  threads the comparator's state (the cache) through every comparison.
\<close>

fun insert_sorted :: "('a \<Rightarrow> 'a \<Rightarrow> 's \<Rightarrow> int \<times> 's) \<Rightarrow> 'a \<Rightarrow> 'a list \<Rightarrow> 's \<Rightarrow> 'a list \<times> 's" where
  "insert_sorted cmp x [] s = ([x], s)"
| "insert_sorted cmp x (y # ys) s =
     (case cmp x y s of
        (c, s1) \<Rightarrow>
          if c < 0 then (x # y # ys, s1)
          else (case insert_sorted cmp x ys s1 of (r, s2) \<Rightarrow> (y # r, s2)))"

fun sort_loop :: "('a \<Rightarrow> 'a \<Rightarrow> 's \<Rightarrow> int \<times> 's) \<Rightarrow> 'a list \<Rightarrow> 'a list \<Rightarrow> 's \<Rightarrow> 'a list \<times> 's" where
  "sort_loop cmp acc [] s = (acc, s)"
| "sort_loop cmp acc (x # xs) s =
     (case insert_sorted cmp x acc s of (acc1, s1) \<Rightarrow> sort_loop cmp acc1 xs s1)"

definition array_sort :: "('a \<Rightarrow> 'a \<Rightarrow> 's \<Rightarrow> int \<times> 's) \<Rightarrow> 'a list \<Rightarrow> 's \<Rightarrow> 'a list \<times> 's" where
  "array_sort cmp xs s = sort_loop cmp [] xs s"

section \<open>Formatter\<close>

text \<open>
  \<open>twMerge\<close> comes from the package \<open>tailwind-merge\<close>; it is the parameter \<open>twMerge\<close>,
  a function from a class list to a class list.
\<close>

definition formatWithGroups :: "localeCompare \<Rightarrow> (string \<Rightarrow> string) \<Rightarrow> string \<Rightarrow> CompiledGroupDefinition list \<Rightarrow> string option" where
  "formatWithGroups lc twMerge v compiledGroups =
     (let collapsed = collapseWhitespace v in
      if collapsed = [] then None
      else
        (let tokens = tokens_of collapsed in
         if length tokens \<le> 1 then (if collapsed = v then None else Some collapsed)
         else
           (let sortedTokens =
                  fst (array_sort (\<lambda>a b. compareClasses lc a b compiledGroups) tokens Map.empty);
                merged = collapseWhitespace (twMerge (join_space sortedTokens))
            in if merged = collapsed then (if collapsed = v then None else Some collapsed)
               else Some merged)))"

section \<open>The default groups and the formatter factory\<close>

definition defaultGroupDefinitions :: "TailwindGroupDefinition list" where
  "defaultGroupDefinitions = [
  \<lparr> name = ''layout'',
     matchers =
      [''^container$'', ''^box-(?:border|content)$'', ''^columns-'',
       ''^break-(?:after|before|inside)-'', ''^box-decoration-'',
       ''^(?:block|inline-block|inline|flex|inline-flex|grid|inline-grid|table|inline-table|table-caption|table-cell|table-column|table-row|flow-root|contents|list-item|hidden)$'',
       ''^float-'', ''^clear-'', ''^isolation-'', ''^object-'', ''^overflow-'',
       ''^overscroll-'', ''^scroll-(?![mp])'',
       ''^(?:static|fixed|absolute|relative|sticky)$'',
       ''^(?:top|right|bottom|left|inset)(?:-|$)'', ''^(?:start|end)(?:-|$)'', ''^z-'',
       ''^visibility$''] \<rparr>,
  \<lparr> name = ''flex-grid'',
     matchers =
      [''^flex-'', ''^basis-'', ''^grow-?'', ''^shrink-?'', ''^grid-'',
       ''^auto-cols-'', ''^auto-rows-'', ''^col-(?:auto|span|start|end)'',
       ''^row-(?:auto|span|start|end)'', ''^gap-'', ''^place-(?:content|items|self)-'',
       ''^justify-'', ''^content-'', ''^items-'', ''^self-'', ''^order-''] \<rparr>,
  \<lparr> name = ''spacing'',
     matchers =
      [''^-?m[trblxy]?(?:-|$)'', ''^-?p[trblxy]?(?:-|$)'', ''^space-[xy]-'',
       ''^divide-[xy]-'', ''^scroll-[mp][trblxy]?(?:-|$)''] \<rparr>,
  \<lparr> name = ''sizing'',
     matchers =
      [''^w-'', ''^min-w-'', ''^max-w-'', ''^h-'', ''^min-h-'', ''^max-h-'',
       ''^size-''] \<rparr>,
  \<lparr> name = ''typography'',
     matchers =
      [''^font-'', ''^text-'', ''^tracking-'', ''^leading-'', ''^list-'',
       ''^placeholder-'', ''^align-'', ''^whitespace-'',
       ''^break-(?:normal|words|all)$'', ''^hyphens-'', ''^content-'', ''^indent-'',
       ''^(?:normal-case|uppercase|lowercase|capitalize)$'',
       ''^subpixel-antialiased$'', ''^antialiased$'', ''^decoration-'',
       ''^underline$''] \<rparr>,
  \<lparr> name = ''background'',
     matchers =
      [''^bg-'', ''^from-'', ''^via-'', ''^to-'', ''^gradient-'', ''^accent-''] \<rparr>,
  \<lparr> name = ''borders'',
     matchers =
      [''^border'', ''^rounded'', ''^outline-'', ''^ring-'', ''^ring-offset-''] \<rparr>,
  \<lparr> name = ''effects'',
     matchers =
      [''^shadow'', ''^opacity-'', ''^mix-blend-'', ''^bg-blend-'', ''^drop-shadow-''] \<rparr>,
  \<lparr> name = ''filters'',
     matchers =
      [''^blur-'', ''^brightness-'', ''^contrast-'', ''^grayscale'', ''^hue-rotate-'',
       ''^invert'', ''^saturate-'', ''^sepia'', ''^backdrop-''] \<rparr>,
  \<lparr> name = ''tables'',
     matchers =
      [''^table-'', ''^caption-'', ''^border-(?:collapse|separate)$''] \<rparr>,
  \<lparr> name = ''transforms'',
     matchers =
      [''^transform(-gpu)?$'', ''^origin-'', ''^scale-'', ''^rotate-'',
       ''^translate-'', ''^skew-'', ''^motion-(?:safe|reduce)'', ''^perspective-''] \<rparr>,
  \<lparr> name = ''transitions'',
     matchers =
      [''^transition'', ''^duration-'', ''^ease-'', ''^delay-'', ''^animate-''] \<rparr>,
  \<lparr> name = ''interactivity'',
     matchers =
      [''^appearance-'', ''^cursor-'', ''^caret-'', ''^pointer-events-'', ''^resize-'',
       ''^scroll-(?:smooth|auto)$'', ''^touch-'', ''^select-'', ''^will-change-'',
       ''^snap-''] \<rparr>,
  \<lparr> name = ''svg'',
     matchers =
      [''^fill-'', ''^stroke-''] \<rparr>,
  \<lparr> name = ''accessibility'',
     matchers =
      [''^sr-only$'', ''^not-sr-only$'', ''^aria-'', ''^data-''] \<rparr>
  ]"

text \<open>
  \<open>createClassFormatter\<close>. The module compiles the default definitions when it is
  loaded (\<open>defaultCompiledGroups\<close>), before any formatter is created; a
  configuration with a non-empty \<open>groupDefinitions\<close> is compiled when the formatter
  is created. Either compilation can throw. The optional configuration is its
  \<open>groupDefinitions\<close> field, \<open>None\<close> when the configuration or the field is absent.
\<close>

definition createClassFormatter ::
  "engine \<Rightarrow> localeCompare \<Rightarrow> (string \<Rightarrow> string) \<Rightarrow> TailwindGroupDefinition list option
   \<Rightarrow> error + (string \<Rightarrow> string option)" where
  "createClassFormatter E lc twMerge config =
     (case compileGroupDefinitions E defaultGroupDefinitions of
        Inl e \<Rightarrow> Inl e
      | Inr defaultCompiledGroups \<Rightarrow>
          (case config of
             None \<Rightarrow> Inr (\<lambda>v. formatWithGroups lc twMerge v defaultCompiledGroups)
           | Some groupDefinitions \<Rightarrow>
               if length groupDefinitions > 0 then
                 (case compileGroupDefinitions E groupDefinitions of
                    Inl e \<Rightarrow> Inl e
                  | Inr compiledGroups \<Rightarrow> Inr (\<lambda>v. formatWithGroups lc twMerge v compiledGroups))
               else Inr (\<lambda>v. formatWithGroups lc twMerge v defaultCompiledGroups)))"

text \<open>\<open>formatClassString\<close>: the formatter built from the configuration, applied to
  the value.\<close>

definition formatClassString ::
  "engine \<Rightarrow> localeCompare \<Rightarrow> (string \<Rightarrow> string) \<Rightarrow> string \<Rightarrow> TailwindGroupDefinition list option
   \<Rightarrow> error + string option" where
  "formatClassString E lc twMerge v config =
     (case createClassFormatter E lc twMerge config of
        Inl e \<Rightarrow> Inl e
      | Inr formatter \<Rightarrow> Inr (formatter v))"

section \<open>The extraction engine of the rule\<close>

text \<open>
  The functions below are those of the rule module that defines
  \<open>STRING_ARGUMENT_REGEX\<close>, \<open>extractStringLiterals\<close>, \<open>processInnerMatches\<close> and
  \<open>findMatchingParenIndex\<close>. The callback \<open>onMatch\<close> is modelled by the list of the
  matches it is called with, in call order. The fields \<open>range\<close> and \<open>value\<close> of
  \<open>RangeMatch\<close> are named \<open>rng\<close> and \<open>val\<close> (both source names are taken in
  Isabelle).
\<close>

record RangeMatch =
  rng :: "nat \<times> nat"
  val :: string

datatype ClassRegexEntry = Single string | Pair string string

text \<open>\<open>text.slice(start, end)\<close> for \<open>0 \<le> start\<close>, \<open>0 \<le> end\<close>: empty when
  \<open>end \<le> start\<close>, cut at the end of the string.\<close>

definition slice :: "string \<Rightarrow> nat \<Rightarrow> nat \<Rightarrow> string" where
  "slice text start end = take (end - start) (drop start text)"

definition isQuote :: "char \<Rightarrow> bool" where
  "isQuote ch = (ch = CHR 0x22 \<or> ch = CHR 0x27 \<or> ch = CHR 0x60)"

definition createRegExp :: "engine \<Rightarrow> string \<Rightarrow> RegExp option" where
  "createRegExp E source = E source"

subsection \<open>\<open>extractStringLiterals\<close>\<close>

record StringLiteral =
  lit_value :: string
  lit_start :: nat
  lit_end :: nat

text \<open>The inner \<open>while\<close> loop: from index \<open>i\<close> to the closing quote. It returns
  the literal pushed, if any, and the index at which the outer loop goes on.\<close>

function scan_literal :: "string \<Rightarrow> char \<Rightarrow> nat \<Rightarrow> nat \<Rightarrow> string \<Rightarrow> StringLiteral option \<times> nat" where
  "scan_literal text quote start i v =
     (if i < length text then
        (if text ! i = quote \<and> text ! (i - 1) \<noteq> CHR 0x5C
         then (Some \<lparr> lit_value = v, lit_start = start + 1, lit_end = i \<rparr>, i + 1)
         else scan_literal text quote start (i + 1) (v @ [text ! i]))
      else (None, i))"
  by pat_completeness auto
termination
  by (relation "measure (\<lambda>(t, quote, start, i, v). length t - i)") auto

declare scan_literal.simps [simp del]

lemma scan_literal_advances: "i \<le> snd (scan_literal t quote start i v)"
proof (induction t quote start i v rule: scan_literal.induct)
  case (1 t quote start i v)
  show ?case
  proof (cases "i < length t \<and> \<not> (t ! i = quote \<and> t ! (i - 1) \<noteq> CHR 0x5C)")
    case True
    then have "i + 1 \<le> snd (scan_literal t quote start (i + 1) (v @ [t ! i]))"
      using "1.IH" by blast
    then show ?thesis using True by (subst scan_literal.simps) auto
  next
    case False
    then show ?thesis by (subst scan_literal.simps) auto
  qed
qed

lemma scan_literal_result: "(r, j) = scan_literal t quote start (Suc i) v \<Longrightarrow> i < j"
  using scan_literal_advances[of "Suc i" t quote start v] by (metis Suc_le_lessD snd_conv)

function extract_loop :: "string \<Rightarrow> nat \<Rightarrow> StringLiteral list \<Rightarrow> StringLiteral list" where
  "extract_loop text i literals =
     (if i < length text then
        (if isQuote (text ! i) then
           (case scan_literal text (text ! i) i (i + 1) [] of
              (None, j) \<Rightarrow> extract_loop text j literals
            | (Some lit, j) \<Rightarrow> extract_loop text j (literals @ [lit]))
         else extract_loop text (i + 1) literals)
      else literals)"
  by pat_completeness auto
termination
  by (relation "measure (\<lambda>(t, i, literals). length t - i)")
     (auto dest!: scan_literal_result)

declare extract_loop.simps [simp del]

definition extractStringLiterals :: "string \<Rightarrow> StringLiteral list" where
  "extractStringLiterals text = extract_loop text 0 []"

subsection \<open>\<open>findCaptureOffset\<close>\<close>

text \<open>\<open>fullMatch.indexOf(capture)\<close>: the first index at which \<open>capture\<close> occurs,
  \<open>None\<close> for \<open>-1\<close>.\<close>

fun indexOf :: "string \<Rightarrow> string \<Rightarrow> nat option" where
  "indexOf [] capture = (if capture = [] then Some 0 else None)"
| "indexOf (c # cs) capture =
     (if take (length capture) (c # cs) = capture then Some 0
      else map_option Suc (indexOf cs capture))"

definition findCaptureOffset :: "string \<Rightarrow> string \<Rightarrow> nat" where
  "findCaptureOffset fullMatch capture =
     (case indexOf fullMatch capture of Some index \<Rightarrow> index | None \<Rightarrow> 0)"

subsection \<open>\<open>processInnerMatches\<close>\<close>

lemma search_from_index:
  "search_from r t i n = Some m \<Longrightarrow> i \<le> m_index m \<and> m_index m < i + n"
proof (induction n arbitrary: i)
  case 0
  then show ?case by simp
next
  case (Suc n)
  show ?case
  proof (cases "r t i")
    case None
    then have "search_from r t (Suc i) n = Some m" using Suc.prems by simp
    then show ?thesis using Suc.IH[of "Suc i"] by simp
  next
    case (Some a)
    then show ?thesis using Suc.prems by (auto split: prod.splits)
  qed
qed

lemma RegExp_exec_index:
  "RegExp_exec r t lastIndex = Some m \<Longrightarrow> lastIndex \<le> m_index m \<and> m_index m \<le> length t"
  using search_from_index[of r t lastIndex "Suc (length t - lastIndex)" m]
  by (auto simp: RegExp_exec_def split: if_splits)

text \<open>
  The \<open>while\<close> loop of \<open>processInnerMatches\<close>. Its state is the \<open>lastIndex\<close> of the
  inner pattern, the set \<open>processedRanges\<close> (the source keys it by the string
  \<open>start:end\<close>, which determines the pair) and the matches passed to \<open>onMatch\<close> so
  far.
\<close>

function inner_loop :: "RegExp \<Rightarrow> string \<Rightarrow> nat \<Rightarrow> string \<Rightarrow> nat \<Rightarrow> (nat \<times> nat) set \<Rightarrow> RangeMatch list \<Rightarrow> RangeMatch list" where
  "inner_loop regex target containerOffset text lastIndex processedRanges out =
     (case RegExp_exec regex target lastIndex of
        None \<Rightarrow> out
      | Some innerMatch \<Rightarrow>
          (let innerFull = m_full innerMatch in
           if innerFull = [] then
             inner_loop regex target containerOffset text (end_index innerMatch + 1) processedRanges out
           else
             (let innerValue = (case m_group1 innerMatch of Some g \<Rightarrow> g | None \<Rightarrow> innerFull);
                  innerOffset = m_index innerMatch + findCaptureOffset innerFull innerValue;
                  start = containerOffset + innerOffset;
                  end = start + length innerValue
              in if (start, end) \<notin> processedRanges then
                   inner_loop regex target containerOffset text (end_index innerMatch)
                     (insert (start, end) processedRanges)
                     (out @ [\<lparr> rng = (start, end), val = slice text start end \<rparr>])
                 else
                   inner_loop regex target containerOffset text (end_index innerMatch)
                     processedRanges out)))"
  by pat_completeness auto
termination
proof (relation "measure (\<lambda>(regex, target, containerOffset, t, lastIndex, processedRanges, out).
                            Suc (length target) - lastIndex)", goal_cases)
  case 1
  show ?case by simp
next
  case (2 regex target containerOffset t lastIndex processedRanges out m innerFull)
  then show ?case
    using RegExp_exec_index[of regex target lastIndex m] by (auto simp: end_index_def)
next
  case (3 regex target containerOffset t lastIndex processedRanges out m innerFull innerValue innerOffset start e)
  then show ?case
    using RegExp_exec_index[of regex target lastIndex m] by (cases "m_full m") (auto simp: end_index_def)
next
  case (4 regex target containerOffset t lastIndex processedRanges out m innerFull innerValue innerOffset start e)
  then show ?case
    using RegExp_exec_index[of regex target lastIndex m] by (cases "m_full m") (auto simp: end_index_def)
qed

declare inner_loop.simps [simp del]

text \<open>\<open>processInnerMatches\<close> sets \<open>lastIndex\<close> to 0 and starts with an empty set. Its
  result \<open>matched\<close>, whether the callback was called, is not used by its caller.\<close>

definition processInnerMatches :: "string \<Rightarrow> RegExp \<Rightarrow> nat \<Rightarrow> string \<Rightarrow> RangeMatch list" where
  "processInnerMatches target regex containerOffset text =
     inner_loop regex target containerOffset text 0 {} []"

subsection \<open>\<open>findMatchingParenIndex\<close>\<close>

function findMatchingParen_loop :: "string \<Rightarrow> nat \<Rightarrow> int \<Rightarrow> char option \<Rightarrow> bool \<Rightarrow> nat option" where
  "findMatchingParen_loop text i depth inString escaped =
     (if i < length text then
        (let ch = text ! i in
         case inString of
           Some q \<Rightarrow>
             findMatchingParen_loop text (i + 1) depth
               (if \<not> escaped \<and> ch = q then None else Some q)
               (\<not> escaped \<and> ch = CHR 0x5C)
         | None \<Rightarrow>
             if isQuote ch then findMatchingParen_loop text (i + 1) depth (Some ch) False
             else if ch = CHR ''('' then findMatchingParen_loop text (i + 1) (depth + 1) None escaped
             else if ch = CHR '')'' then
               (if depth - 1 = 0 then Some i
                else findMatchingParen_loop text (i + 1) (depth - 1) None escaped)
             else findMatchingParen_loop text (i + 1) depth None escaped)
      else None)"
  by pat_completeness auto
termination
  by (relation "measure (\<lambda>(t, i, depth, inString, escaped). length t - i)") auto

declare findMatchingParen_loop.simps [simp del]

definition findMatchingParenIndex :: "string \<Rightarrow> nat \<Rightarrow> nat option" where
  "findMatchingParenIndex text openParenIndex =
     findMatchingParen_loop text (openParenIndex + 1) 1 None False"

subsection \<open>\<open>applyRegexEntry\<close>\<close>

text \<open>The body of the outer loop for one non-empty outer match: what it passes to
  \<open>onMatch\<close>.\<close>

definition process_outer_match :: "RegExp option \<Rightarrow> string \<Rightarrow> RegExpExecArray \<Rightarrow> RangeMatch list" where
  "process_outer_match innerRegex text outerMatch =
     (let matchedText = m_full outerMatch in
      case indexOf matchedText ''('' of
        None \<Rightarrow> []
      | Some openRel \<Rightarrow>
          (let openAbs = m_index outerMatch + openRel in
           case findMatchingParenIndex text openAbs of
             None \<Rightarrow> []
           | Some closeAbs \<Rightarrow>
               (let containerOffset = openAbs + 1;
                    container = slice text containerOffset closeAbs
                in case innerRegex of
                     Some regex \<Rightarrow> processInnerMatches container regex containerOffset text
                   | None \<Rightarrow>
                       (let literals = extractStringLiterals container in
                        if length literals > 0 then
                          map (\<lambda>lit. \<lparr> rng = (containerOffset + lit_start lit, containerOffset + lit_end lit),
                                        val = lit_value lit \<rparr>) literals
                        else
                          [\<lparr> rng = (containerOffset, containerOffset + length container),
                             val = slice text containerOffset (containerOffset + length container) \<rparr>]))))"

function outer_loop :: "RegExp \<Rightarrow> RegExp option \<Rightarrow> string \<Rightarrow> nat \<Rightarrow> RangeMatch list \<Rightarrow> RangeMatch list" where
  "outer_loop outerRegex innerRegex text lastIndex out =
     (case RegExp_exec outerRegex text lastIndex of
        None \<Rightarrow> out
      | Some outerMatch \<Rightarrow>
          if m_full outerMatch = [] then
            outer_loop outerRegex innerRegex text (end_index outerMatch + 1) out
          else
            outer_loop outerRegex innerRegex text (end_index outerMatch)
              (out @ process_outer_match innerRegex text outerMatch))"
  by pat_completeness auto
termination
proof (relation "measure (\<lambda>(outerRegex, innerRegex, t, lastIndex, out). Suc (length t) - lastIndex)",
    goal_cases)
  case 1
  show ?case by simp
next
  case (2 outerRegex innerRegex t lastIndex out m)
  then show ?case
    using RegExp_exec_index[of outerRegex t lastIndex m] by (auto simp: end_index_def)
next
  case (3 outerRegex innerRegex t lastIndex out m)
  then show ?case
    using RegExp_exec_index[of outerRegex t lastIndex m] by (cases "m_full m") (auto simp: end_index_def)
qed

declare outer_loop.simps [simp del]

text \<open>
  \<open>applyRegexEntry\<close>. Both patterns are compiled before the loop starts, so a
  pattern the engine rejects throws before anything is matched. An inner pattern
  that is the empty string is falsy and counts as absent.
\<close>

definition applyRegexEntry :: "engine \<Rightarrow> string \<Rightarrow> ClassRegexEntry \<Rightarrow> error + RangeMatch list" where
  "applyRegexEntry E text entry =
     (let outerSource = (case entry of Single s \<Rightarrow> s | Pair s t \<Rightarrow> s);
          innerPattern = (case entry of Single s \<Rightarrow> None | Pair s t \<Rightarrow> Some t)
      in case createRegExp E outerSource of
           None \<Rightarrow> Inl (SyntaxError outerSource)
         | Some outerRegex \<Rightarrow>
             (case innerPattern of
                None \<Rightarrow> Inr (outer_loop outerRegex None text 0 [])
              | Some p \<Rightarrow>
                  if p = [] then Inr (outer_loop outerRegex None text 0 [])
                  else
                    (case createRegExp E p of
                       None \<Rightarrow> Inl (SyntaxError p)
                     | Some innerRegex \<Rightarrow> Inr (outer_loop outerRegex (Some innerRegex) text 0 []))))"

section \<open>The default locators\<close>

text \<open>\<open>STRING_ARGUMENT_REGEX\<close>: a quote character, one or more characters that are
  not quotes (group 1), a quote character.\<close>

definition STRING_ARGUMENT_REGEX :: string where
  "STRING_ARGUMENT_REGEX =
     ''['' @ [CHR 0x22, CHR 0x27, CHR 0x60] @ '']([^'' @ [CHR 0x22, CHR 0x27, CHR 0x60] @ '']+)[''
     @ [CHR 0x22, CHR 0x27, CHR 0x60] @ '']''"

text \<open>The source spells out four outer patterns of the same shape, the name of
  a function followed by \<open>\(([^)]*)\)\<close>.\<close>

definition call_pattern :: "string \<Rightarrow> string" where
  "call_pattern f = f @ [CHR 0x5C] @ ''(([^)]*)'' @ [CHR 0x5C] @ '')''"

definition DEFAULT_CLASS_REGEX :: "ClassRegexEntry list" where
  "DEFAULT_CLASS_REGEX =
     [Pair (call_pattern ''cva'') STRING_ARGUMENT_REGEX,
      Pair (call_pattern ''clsx'') STRING_ARGUMENT_REGEX,
      Pair (call_pattern ''cn'') STRING_ARGUMENT_REGEX,
      Pair (call_pattern ''twMerge'') STRING_ARGUMENT_REGEX]"

section \<open>Properties of the normaliser and the comparator: vocabulary\<close>

text \<open>
  The bracket depth \<open>stripVariants\<close> has reached when it has scanned a string from
  its end to its start and met no boundary: a closing bracket opens a level (the
  scan runs right to left), an opening bracket closes one, never below 0.
\<close>

fun bracket_depth :: "string \<Rightarrow> nat" where
  "bracket_depth [] = 0"
| "bracket_depth (c # cs) =
     (if c = CHR '']'' then bracket_depth cs + 1
      else if c = CHR ''['' then bracket_depth cs - 1
      else bracket_depth cs)"

text \<open>Position \<open>i\<close> holds a colon outside every bracket pair to its right.\<close>

definition boundary :: "string \<Rightarrow> nat \<Rightarrow> bool" where
  "boundary t i = (i < length t \<and> t ! i = CHR '':'' \<and> bracket_depth (drop (Suc i) t) = 0)"

text \<open>
  The three derived keys of a token, as the specification describes them: the
  token is important when it starts with \<open>!\<close>; its base is the token without that
  marker and without its variant prefixes; its weight is the group weight of the
  base.
\<close>

definition token_important :: "string \<Rightarrow> bool" where
  "token_important token = (take 1 token = ''!'')"

definition token_base :: "string \<Rightarrow> string" where
  "token_base token = stripVariants (if token_important token then drop 1 token else token)"

definition normalized :: "string \<Rightarrow> CompiledGroupDefinition list \<Rightarrow> NormalizedToken" where
  "normalized token groups =
     \<lparr> important = token_important token,
       base = token_base token,
       groupWeight = resolveGroupWeight (token_base token) groups \<rparr>"






text \<open>
  An instance of \<open>localeCompare\<close> for evaluating examples: the order of the code
  units. On strings of lower-case ASCII letters it agrees with the collation
  order of every locale the runtime ships.
\<close>

fun codeUnitCompare :: "string \<Rightarrow> string \<Rightarrow> int" where
  "codeUnitCompare [] [] = 0"
| "codeUnitCompare [] (y # ys) = - 1"
| "codeUnitCompare (x # xs) [] = 1"
| "codeUnitCompare (x # xs) (y # ys) =
     (if x = y then codeUnitCompare xs ys
      else if (of_char x :: nat) < of_char y then - 1 else 1)"



text \<open>Some pattern of the group matches the token.\<close>

definition group_matches :: "string \<Rightarrow> CompiledGroupDefinition \<Rightarrow> bool" where
  "group_matches token g = (\<exists>r \<in> set (regexes g). RegExp_test r token)"

section \<open>The parenthesis scanner: vocabulary\<close>

text \<open>
  What the claim about \<open>findMatchingParenIndex\<close> speaks of, defined without the
  loop. The quote state after a piece of text is whether the text ends inside a
  quoted region (and which quote opened it) and whether the last character was an
  unescaped backslash inside it.
\<close>

fun quote_step :: "char option \<times> bool \<Rightarrow> char \<Rightarrow> char option \<times> bool" where
  "quote_step (Some q, escaped) ch =
     (if \<not> escaped \<and> ch = q then None else Some q, \<not> escaped \<and> ch = CHR 0x5C)"
| "quote_step (None, escaped) ch =
     (if isQuote ch then (Some ch, False) else (None, escaped))"

text \<open>The quote state before position \<open>i\<close>, for a scan that started after the
  opening parenthesis at \<open>opn\<close>.\<close>

definition quote_state :: "string \<Rightarrow> nat \<Rightarrow> nat \<Rightarrow> char option \<times> bool" where
  "quote_state t opn i = foldl quote_step (None, False) (slice t (Suc opn) i)"

text \<open>Position \<open>i\<close> is outside every quoted region.\<close>

definition in_code :: "string \<Rightarrow> nat \<Rightarrow> nat \<Rightarrow> bool" where
  "in_code t opn i = (fst (quote_state t opn i) = None)"

text \<open>How many positions strictly between \<open>opn\<close> and \<open>i\<close> hold the character \<open>c\<close>
  outside every quoted region.\<close>

definition count_code :: "string \<Rightarrow> nat \<Rightarrow> nat \<Rightarrow> char \<Rightarrow> nat" where
  "count_code t opn i c = length (filter (\<lambda>j. t ! j = c \<and> in_code t opn j) [Suc opn..<i])"

text \<open>The nesting depth before position \<open>i\<close>: 1 for the opening parenthesis at
  \<open>opn\<close>, plus the parentheses opened, minus those closed, outside quoted regions.\<close>

definition depth_at :: "string \<Rightarrow> nat \<Rightarrow> nat \<Rightarrow> int" where
  "depth_at t opn i = 1 + int (count_code t opn i CHR ''('') - int (count_code t opn i CHR '')'')"

text \<open>Position \<open>i\<close> holds a closing parenthesis, outside every quoted region, that
  returns the depth to zero.\<close>

definition closes :: "string \<Rightarrow> nat \<Rightarrow> nat \<Rightarrow> bool" where
  "closes t opn i =
     (opn < i \<and> i < length t \<and> t ! i = CHR '')'' \<and> in_code t opn i \<and> depth_at t opn i = 1)"

section \<open>Compilation: vocabulary\<close>

text \<open>The first matcher string, in definition order and then in matcher order,
  that the engine rejects.\<close>

definition first_invalid :: "engine \<Rightarrow> TailwindGroupDefinition list \<Rightarrow> string option" where
  "first_invalid E defs = find (\<lambda>p. E p = None) (concat (map matchers defs))"

text \<open>The compiled group of the definition \<open>d\<close> at position \<open>i\<close>, when the engine
  accepts all its matchers.\<close>

definition compiled_at :: "engine \<Rightarrow> nat \<Rightarrow> TailwindGroupDefinition \<Rightarrow> CompiledGroupDefinition" where
  "compiled_at E i d = \<lparr> cg_name = name d, weight = i, regexes = map (\<lambda>p. the (E p)) (matchers d) \<rparr>"

section \<open>An engine instance for the repository's own patterns\<close>

text \<open>
  The theorems about the source hold for every engine. To evaluate the source on
  the examples of its test suite, an instance is needed that behaves as the
  JavaScript engine does on the patterns those examples use. The instance below
  implements ECMAScript's backtracking semantics for a fragment of the pattern
  syntax: literal characters, \<open>.\<close>, escaped syntax characters, character classes
  without ranges, groups (capturing and \<open>(?:\<close>), alternation, the greedy
  quantifiers \<open>*\<close>, \<open>+\<close>, \<open>?\<close>, the anchors \<open>^\<close> and \<open>$\<close>, and negative lookahead.
  Every pattern of \<open>defaultGroupDefinitions\<close> and of \<open>DEFAULT_CLASS_REGEX\<close> is in the
  fragment. A pattern outside it is rejected by the instance, whether JavaScript
  accepts it or not, so the instance is only used on patterns of the fragment.

  \<open>rx_match r t s\<close> lists the states in which a match of \<open>r\<close> started in state \<open>s\<close>
  can end, in the order in which backtracking tries them. A state is the current
  index and what group 1 has captured (start and length).
\<close>

datatype rx =
    REmpty
  | RChar char
  | RAny
  | RClass bool "char list"
  | RSeq rx rx
  | RAlt rx rx
  | RStar rx
  | RPlus rx
  | ROpt rx
  | RBol
  | REol
  | RGroup nat rx
  | RNegLook rx

type_synonym rstate = "nat \<times> (nat \<times> nat) option"

text \<open>A quantifier clears the captures of the groups inside it at the start of
  every iteration (\<open>RepeatMatcher\<close>); only group 1 is tracked.\<close>

fun has_group1 :: "rx \<Rightarrow> bool" where
  "has_group1 (RSeq a b) = (has_group1 a \<or> has_group1 b)"
| "has_group1 (RAlt a b) = (has_group1 a \<or> has_group1 b)"
| "has_group1 (RStar a) = has_group1 a"
| "has_group1 (RPlus a) = has_group1 a"
| "has_group1 (ROpt a) = has_group1 a"
| "has_group1 (RGroup n a) = (n = 1 \<or> has_group1 a)"
| "has_group1 (RNegLook a) = has_group1 a"
| "has_group1 _ = False"

definition reset_caps :: "rx \<Rightarrow> rstate \<Rightarrow> rstate" where
  "reset_caps a s = (if has_group1 a then (fst s, None) else s)"

text \<open>Greedy repetition of \<open>f\<close>: an iteration has to consume input; at most \<open>n\<close>
  iterations, which is enough when \<open>n\<close> is the length of the subject.\<close>

fun iterate :: "nat \<Rightarrow> (rstate \<Rightarrow> rstate list) \<Rightarrow> rstate \<Rightarrow> rstate list" where
  "iterate 0 f s = [s]"
| "iterate (Suc n) f s =
     concat (map (iterate n f) (filter (\<lambda>s'. fst s < fst s') (f s))) @ [s]"

fun rx_match :: "rx \<Rightarrow> string \<Rightarrow> rstate \<Rightarrow> rstate list" where
  "rx_match REmpty t s = [s]"
| "rx_match (RChar x) t s =
     (if fst s < length t \<and> t ! fst s = x then [(Suc (fst s), snd s)] else [])"
| "rx_match RAny t s =
     (if fst s < length t \<and> t ! fst s \<noteq> CHR 0x0A \<and> t ! fst s \<noteq> CHR 0x0D
      then [(Suc (fst s), snd s)] else [])"
| "rx_match (RClass neg cs) t s =
     (if fst s < length t \<and> ((t ! fst s \<in> set cs) \<noteq> neg) then [(Suc (fst s), snd s)] else [])"
| "rx_match (RSeq a b) t s = concat (map (rx_match b t) (rx_match a t s))"
| "rx_match (RAlt a b) t s = rx_match a t s @ rx_match b t s"
| "rx_match (RStar a) t s = iterate (length t) (\<lambda>s'. rx_match a t (reset_caps a s')) s"
| "rx_match (RPlus a) t s =
     concat (map (iterate (length t) (\<lambda>s'. rx_match a t (reset_caps a s')))
                 (rx_match a t (reset_caps a s)))"
| "rx_match (ROpt a) t s =
     filter (\<lambda>s'. fst s < fst s') (rx_match a t (reset_caps a s)) @ [s]"
| "rx_match RBol t s = (if fst s = 0 then [s] else [])"
| "rx_match REol t s = (if fst s = length t then [s] else [])"
| "rx_match (RGroup n a) t s =
     map (\<lambda>s'. (fst s', if n = 1 then Some (fst s, fst s' - fst s) else snd s')) (rx_match a t s)"
| "rx_match (RNegLook a) t s = (if rx_match a t s = [] then [s] else [])"

definition rx_matcher :: "rx \<Rightarrow> RegExp" where
  "rx_matcher r text i =
     (case rx_match r text (i, None) of
        [] \<Rightarrow> None
      | s # _ \<Rightarrow> Some (fst s - i, snd s))"

definition syntax_chars :: "char list" where
  "syntax_chars = ''^$.*+?()[]{}|/'' @ [CHR 0x5C]"


subsection \<open>Parsing a pattern source\<close>

text \<open>A lazy quantifier (\<open>*?\<close>, \<open>+?\<close>, \<open>??\<close>) is outside the fragment.\<close>

definition quantify :: "rx \<Rightarrow> string \<Rightarrow> nat \<Rightarrow> (rx \<times> string \<times> nat) option" where
  "quantify a s n =
     (case s of
        [] \<Rightarrow> Some (a, s, n)
      | q # r \<Rightarrow>
          if q = CHR ''*'' \<or> q = CHR ''+'' \<or> q = CHR ''?'' then
            (if take 1 r = ''?'' then None
             else Some (if q = CHR ''*'' then RStar a else if q = CHR ''+'' then RPlus a else ROpt a, r, n))
          else Some (a, s, n))"

text \<open>The members of a class up to \<open>]\<close>; ranges and escapes are outside the
  fragment.\<close>

fun parse_class :: "string \<Rightarrow> char list \<Rightarrow> (char list \<times> string) option" where
  "parse_class [] acc = None"
| "parse_class (c # cs) acc =
     (if c = CHR '']'' then Some (rev acc, cs)
      else if c = CHR 0x5C \<or> c = CHR ''-'' then None
      else parse_class cs (c # acc))"

text \<open>Recursive descent over \<open>Disjunction\<close>, \<open>Alternative\<close> and \<open>Term\<close>. The first
  argument bounds the depth of the recursion; the third is the number of the next
  capturing group. The result is the tree, the rest of the source and the next
  group number.\<close>

fun parse_disj :: "nat \<Rightarrow> string \<Rightarrow> nat \<Rightarrow> (rx \<times> string \<times> nat) option"
  and parse_alt :: "nat \<Rightarrow> string \<Rightarrow> nat \<Rightarrow> (rx \<times> string \<times> nat) option"
  and parse_term :: "nat \<Rightarrow> string \<Rightarrow> nat \<Rightarrow> (rx \<times> string \<times> nat) option"
  and parse_close :: "nat \<Rightarrow> string \<Rightarrow> nat \<Rightarrow> (rx \<times> string \<times> nat) option"
where
  "parse_disj 0 s n = None"
| "parse_disj (Suc f) s n =
     (case parse_alt f s n of
        None \<Rightarrow> None
      | Some (a, rest, n1) \<Rightarrow>
          if take 1 rest = ''|'' then
            (case parse_disj f (drop 1 rest) n1 of
               None \<Rightarrow> None
             | Some (b, rest2, n2) \<Rightarrow> Some (RAlt a b, rest2, n2))
          else Some (a, rest, n1))"
| "parse_alt 0 s n = None"
| "parse_alt (Suc f) s n =
     (if s = [] \<or> take 1 s = ''|'' \<or> take 1 s = '')'' then Some (REmpty, s, n)
      else
        (case parse_term f s n of
           None \<Rightarrow> None
         | Some (t, rest, n1) \<Rightarrow>
             (case parse_alt f rest n1 of
                None \<Rightarrow> None
              | Some (a, rest2, n2) \<Rightarrow> Some (RSeq t a, rest2, n2))))"
| "parse_term 0 s n = None"
| "parse_term (Suc f) s n =
     (case s of
        [] \<Rightarrow> None
      | c # cs \<Rightarrow>
          if c = CHR ''^'' then Some (RBol, cs, n)
          else if c = CHR ''$'' then Some (REol, cs, n)
          else if c = CHR ''('' then
            (if take 2 cs = ''?!'' then
               (case parse_close f (drop 2 cs) n of
                  None \<Rightarrow> None
                | Some (a, rest, n1) \<Rightarrow> Some (RNegLook a, rest, n1))
             else if take 2 cs = ''?:'' then
               (case parse_close f (drop 2 cs) n of
                  None \<Rightarrow> None
                | Some (a, rest, n1) \<Rightarrow> quantify a rest n1)
             else if take 1 cs = ''?'' then None
             else
               (case parse_close f cs (Suc n) of
                  None \<Rightarrow> None
                | Some (a, rest, n1) \<Rightarrow> quantify (RGroup n a) rest n1))
          else if c = CHR ''['' then
            (case parse_class (if take 1 cs = ''^'' then drop 1 cs else cs) [] of
               None \<Rightarrow> None
             | Some (members, rest) \<Rightarrow> quantify (RClass (take 1 cs = ''^'') members) rest n)
          else if c = CHR ''.'' then quantify RAny cs n
          else if c = CHR 0x5C then
            (case cs of
               [] \<Rightarrow> None
             | e # cs' \<Rightarrow> if e \<in> set syntax_chars then quantify (RChar e) cs' n else None)
          else if c \<in> set ''*+?)]{}|'' then None
          else quantify (RChar c) cs n)"
| "parse_close 0 s n = None"
| "parse_close (Suc f) s n =
     (case parse_disj f s n of
        None \<Rightarrow> None
      | Some (a, rest, n1) \<Rightarrow> if take 1 rest = '')'' then Some (a, drop 1 rest, n1) else None)"

definition rx_parse :: "string \<Rightarrow> rx option" where
  "rx_parse p =
     (case parse_disj (4 * length p + 4) p 1 of
        None \<Rightarrow> None
      | Some (r, rest, n) \<Rightarrow> if rest = [] then Some r else None)"

text \<open>\<open>new RegExp(p)\<close> for the fragment.\<close>

definition fragment_engine :: engine where
  "fragment_engine p = map_option rx_matcher (rx_parse p)"

section \<open>Instances of the conflict resolver\<close>

text \<open>
  \<open>twMerge\<close> splits its argument at runs of white space, drops a class when a
  later class of the list conflicts with it, and joins what is left with single
  spaces. \<open>twMerge_no_conflict\<close> is that function on class lists in which no two
  classes conflict: every class is kept.
\<close>

fun words_from :: "string \<Rightarrow> string \<Rightarrow> string list" where
  "words_from [] cur = (if cur = [] then [] else [rev cur])"
| "words_from (c # cs) cur =
     (if isWhiteSpace c then (if cur = [] then words_from cs [] else rev cur # words_from cs [])
      else words_from cs (c # cur))"

definition twMerge_no_conflict :: "string \<Rightarrow> string" where
  "twMerge_no_conflict classList = join_space (words_from classList [])"

section \<open>Example inputs\<close>

text \<open>Two custom groups, and what the fragment engine compiles them to.\<close>

definition example_definitions :: "TailwindGroupDefinition list" where
  "example_definitions =
     [\<lparr> name = ''backgrounds-first'', matchers = [''^bg-''] \<rparr>,
      \<lparr> name = ''layout'', matchers = [''^flex$''] \<rparr>]"

definition example_groups :: "CompiledGroupDefinition list" where
  "example_groups =
     [\<lparr> cg_name = ''backgrounds-first'', weight = 0,
         regexes = [rx_matcher (RSeq RBol (RSeq (RChar CHR ''b'') (RSeq (RChar CHR ''g'') (RSeq (RChar CHR ''-'') REmpty))))] \<rparr>,
      \<lparr> cg_name = ''layout'', weight = 1,
         regexes = [rx_matcher (RSeq RBol (RSeq (RChar CHR ''f'') (RSeq (RChar CHR ''l'') (RSeq (RChar CHR ''e'')
      (RSeq (RChar CHR ''x'') (RSeq REol REmpty))))))] \<rparr>]"

text \<open>The call of the test suite, \<open>cn('relative size-full  rounded text-sm ', props.class)\<close>,
  and the match of the outer \<open>cn\<close> pattern on it.\<close>

definition cn_call :: string where
  "cn_call = ''cn('' @ [CHR 0x27] @ ''relative size-full  rounded text-sm '' @ [CHR 0x27] @ '', props.class)''"

definition cn_outer_match :: RegExpExecArray where
  "cn_outer_match =
     \<lparr> m_index = 0, m_full = cn_call,
       m_group1 = Some (slice cn_call 3 54), m_group1_index = Some 3 \<rparr>"

text \<open>An inner pattern that captures the value of an object entry, \<open>'[^']*': '([^']+)'\<close>,
  and a call whose entry has the same text as key and as value: \<open>cn({'b a': 'b a'})\<close>.\<close>

definition object_value_pattern :: string where
  "object_value_pattern =
     [CHR 0x27] @ ''[^'' @ [CHR 0x27] @ '']*'' @ [CHR 0x27] @ '': '' @ [CHR 0x27] @ ''([^''
     @ [CHR 0x27] @ '']+)'' @ [CHR 0x27]"

definition object_call :: string where
  "object_call = ''cn({'' @ [CHR 0x27] @ ''b a'' @ [CHR 0x27] @ '': '' @ [CHR 0x27] @ ''b a'' @ [CHR 0x27] @ ''})''"


text \<open>A custom group whose second matcher is not a pattern (the group is not
  closed).\<close>

definition broken_definitions :: "TailwindGroupDefinition list" where
  "broken_definitions = [\<lparr> name = ''layout'', matchers = [''^flex$'', ''(flex''] \<rparr>]"

section \<open>Variant stripping\<close>

lemma bracket_depth_drop:
  "m < length t \<Longrightarrow> bracket_depth (drop m t) =
     (if t ! m = CHR '']'' then bracket_depth (drop (Suc m) t) + 1
      else if t ! m = CHR ''['' then bracket_depth (drop (Suc m) t) - 1
      else bracket_depth (drop (Suc m) t))"
  by (simp flip: Cons_nth_drop_Suc)

lemma loop_no_boundary:
  "n \<le> length t \<Longrightarrow> (\<And>i. i < n \<Longrightarrow> \<not> boundary t i) \<Longrightarrow>
   stripVariants_loop t n (bracket_depth (drop n t)) = t"
proof (induction n)
  case 0
  then show ?case by simp
next
  case (Suc m)
  have m: "m < length t" using Suc.prems(1) by simp
  have nb: "\<not> boundary t m" using Suc.prems(2) by simp
  have IH: "stripVariants_loop t m (bracket_depth (drop m t)) = t"
    using Suc by simp
  show ?case
    using IH nb m bracket_depth_drop[OF m]
    by (auto simp: boundary_def Let_def)
qed

lemma loop_boundary:
  "n \<le> length t \<Longrightarrow> i < n \<Longrightarrow> boundary t i \<Longrightarrow> (\<And>j. i < j \<Longrightarrow> j < n \<Longrightarrow> \<not> boundary t j) \<Longrightarrow>
   stripVariants_loop t n (bracket_depth (drop n t)) = drop (Suc i) t"
proof (induction n)
  case 0
  then show ?case by simp
next
  case (Suc m)
  have m: "m < length t" using Suc.prems(1) by simp
  show ?case
  proof (cases "i = m")
    case True
    then show ?thesis using Suc.prems(3) m
      by (auto simp: boundary_def Let_def)
  next
    case False
    then have im: "i < m" using Suc.prems(2) by simp
    have nb: "\<not> boundary t m" using Suc.prems(4)[of m] im by simp
    have IH: "stripVariants_loop t m (bracket_depth (drop m t)) = drop (Suc i) t"
      using Suc im m by simp
    show ?thesis
      using IH nb m bracket_depth_drop[OF m]
      by (auto simp: boundary_def Let_def)
  qed
qed

lemma normalizeToken_fresh:
  "fst (normalizeToken t groups Map.empty) =
     \<lparr> important = fst (removeImportantPrefix t),
       base = stripVariants (snd (removeImportantPrefix t)),
       groupWeight = resolveGroupWeight (stripVariants (snd (removeImportantPrefix t))) groups \<rparr>"
  by (simp add: normalizeToken_def Let_def)

text \<open>
  Claim C3. \<open>stripVariants\<close> scans the token from its end, tracking bracket depth,
  and cuts at the first colon it meets at depth 0: if \<open>i\<close> is the rightmost position
  holding a colon outside every bracket pair to its right, the result is
  everything after \<open>i\<close>; if there is no such position the token is returned whole.
  The base of a normalised token is \<open>stripVariants\<close> of the token without its
  leading \<open>!\<close>. In particular \<open>hover:[&:nth-child(2)]:bg-red-500\<close> has base
  \<open>bg-red-500\<close>, and \<open>hover:bg-red-500\<close> gets the group weight of \<open>bg-red-500\<close>
  whatever the groups are.
\<close>

theorem stripVariants_boundary:
  "(boundary t i \<and> (\<forall>j. i < j \<and> j < length t \<longrightarrow> \<not> boundary t j) \<longrightarrow> stripVariants t = drop (Suc i) t)
   \<and> ((\<forall>j < length t. \<not> boundary t j) \<longrightarrow> stripVariants t = t)
   \<and> base (fst (normalizeToken t groups Map.empty)) = stripVariants (snd (removeImportantPrefix t))
   \<and> base (fst (normalizeToken ''hover:[&:nth-child(2)]:bg-red-500'' groups Map.empty)) = ''bg-red-500''
   \<and> groupWeight (fst (normalizeToken ''hover:bg-red-500'' groups Map.empty))
       = groupWeight (fst (normalizeToken ''bg-red-500'' groups Map.empty))"
proof -
  have a: "boundary t i \<and> (\<forall>j. i < j \<and> j < length t \<longrightarrow> \<not> boundary t j) \<longrightarrow> stripVariants t = drop (Suc i) t"
    unfolding stripVariants_def
    using loop_boundary[of "length t" t i] by (auto simp: boundary_def)
  have b: "(\<forall>j < length t. \<not> boundary t j) \<longrightarrow> stripVariants t = t"
    unfolding stripVariants_def
    using loop_no_boundary[of "length t" t] by auto
  have c: "stripVariants ''hover:[&:nth-child(2)]:bg-red-500'' = ''bg-red-500''"
    by code_simp
  have d: "stripVariants ''hover:bg-red-500'' = ''bg-red-500''"
    by code_simp
  have e: "stripVariants ''bg-red-500'' = ''bg-red-500''"
    by code_simp
  show ?thesis
    using a b c d e by (simp add: normalizeToken_fresh removeImportantPrefix_def)
qed

theorem stripVariants_boundary_witness:
  "boundary ''md:hover:flex'' 8
   \<and> stripVariants ''md:hover:flex'' = ''flex''
   \<and> stripVariants ''flex'' = ''flex''
   \<and> stripVariants ''[&:hover]:flex'' = ''flex''"
proof -
  have b: "boundary ''md:hover:flex'' 8" by (simp add: boundary_def)
  have nb: "\<forall>j. 8 < j \<and> j < length ''md:hover:flex'' \<longrightarrow> \<not> boundary ''md:hover:flex'' j"
    by (simp add: boundary_def nth_Cons')
  have nf: "\<forall>j < length ''flex''. \<not> boundary ''flex'' j"
    by (simp add: boundary_def nth_Cons')
  have b2: "boundary ''[&:hover]:flex'' 9" by (simp add: boundary_def)
  have nb2: "\<forall>j. 9 < j \<and> j < length ''[&:hover]:flex'' \<longrightarrow> \<not> boundary ''[&:hover]:flex'' j"
    by (simp add: boundary_def nth_Cons')
  have 1: "stripVariants ''md:hover:flex'' = drop (Suc 8) ''md:hover:flex''"
    using stripVariants_boundary[of "''md:hover:flex''" 8] b nb by blast
  have 2: "stripVariants ''flex'' = ''flex''"
    using stripVariants_boundary[of "''flex''"] nf by blast
  have 3: "stripVariants ''[&:hover]:flex'' = drop (Suc 9) ''[&:hover]:flex''"
    using stripVariants_boundary[of "''[&:hover]:flex''" 9] b2 nb2 by blast
  show ?thesis using b 1 2 3 by simp
qed

section \<open>The comparator\<close>

























section \<open>Group weights\<close>

lemma some_regex_iff: "some_regex rs token = (\<exists>r \<in> set rs. RegExp_test r token)"
  by (induction rs) auto

lemma resolve_loop_none:
  "(resolve_loop token gs = None) = (\<forall>i < length gs. \<not> group_matches token (gs ! i))"
proof (induction gs)
  case Nil
  then show ?case by simp
next
  case (Cons g gs)
  show ?case
    using Cons.IH
    by (auto simp: group_matches_def some_regex_iff nth_Cons split: nat.splits)
qed

lemma resolve_loop_first:
  "i < length gs \<Longrightarrow> group_matches token (gs ! i) \<Longrightarrow> (\<And>j. j < i \<Longrightarrow> \<not> group_matches token (gs ! j))
   \<Longrightarrow> resolve_loop token gs = Some (weight (gs ! i))"
proof (induction gs arbitrary: i)
  case Nil
  then show ?case by simp
next
  case (Cons g gs)
  show ?case
  proof (cases i)
    case 0
    then show ?thesis using Cons.prems(2) by (simp add: group_matches_def some_regex_iff)
  next
    case (Suc k)
    have g: "\<not> group_matches token g" using Cons.prems(3)[of 0] Suc by simp
    have "resolve_loop token gs = Some (weight (gs ! k))"
    proof (rule Cons.IH)
      show "k < length gs" using Cons.prems(1) Suc by simp
      show "group_matches token (gs ! k)" using Cons.prems(2) Suc by simp
      show "\<And>j. j < k \<Longrightarrow> \<not> group_matches token (gs ! j)"
        using Cons.prems(3)[of "Suc j" for j] Suc by simp
    qed
    then show ?thesis using g Suc by (simp add: group_matches_def some_regex_iff)
  qed
qed

lemma compile_matchers_ok:
  "compile_matchers E ps = Inr rs \<Longrightarrow> list_all2 (\<lambda>p r. E p = Some r) ps rs"
  by (induction ps arbitrary: rs) (auto split: option.splits sum.splits)

lemma compile_from_ok:
  "compile_from E k defs = Inr gs \<Longrightarrow>
   length gs = length defs
   \<and> (\<forall>i < length gs. weight (gs ! i) = k + i \<and> cg_name (gs ! i) = name (defs ! i)
        \<and> list_all2 (\<lambda>p r. E p = Some r) (matchers (defs ! i)) (regexes (gs ! i)))"
proof (induction defs arbitrary: k gs)
  case Nil
  then show ?case by simp
next
  case (Cons d ds)
  from Cons.prems obtain rs gs' where
    rs: "compile_matchers E (matchers d) = Inr rs" and
    gs': "compile_from E (Suc k) ds = Inr gs'" and
    gs: "gs = \<lparr> cg_name = name d, weight = k, regexes = rs \<rparr> # gs'"
    by (auto split: sum.splits)
  note IH = Cons.IH[OF gs']
  show ?case
    using IH compile_matchers_ok[OF rs] gs
    by (auto simp: nth_Cons split: nat.splits)
qed

lemma first_match_exists:
  assumes "\<exists>i < length gs. group_matches token (gs ! i)"
  shows "\<exists>i < length gs. group_matches token (gs ! i) \<and> (\<forall>j < i. \<not> group_matches token (gs ! j))"
proof -
  define P where "P = (\<lambda>i. i < length gs \<and> group_matches token (gs ! i))"
  have ex: "\<exists>i. P i" using assms by (auto simp: P_def)
  define m where "m = (LEAST i. P i)"
  have 1: "P m" unfolding m_def using ex by (rule LeastI_ex)
  have 2: "\<And>j. j < m \<Longrightarrow> \<not> P j" unfolding m_def by (rule not_less_Least)
  have 3: "\<forall>j < m. \<not> group_matches token (gs ! j)"
  proof (intro allI impI)
    fix j assume jm: "j < m"
    then have "\<not> P j" by (rule 2)
    moreover have "j < length gs" using jm 1 by (simp add: P_def)
    ultimately show "\<not> group_matches token (gs ! j)" by (simp add: P_def)
  qed
  show ?thesis using 1 3 unfolding P_def by blast
qed

text \<open>
  Claim C2. For every token and every list of compiled groups,
  \<open>resolveGroupWeight\<close> returns the weight of the first group, in list order, one
  of whose patterns matches the token, and the length of the list when no group
  matches. When the list comes from \<open>compileGroupDefinitions\<close>, the weights are
  \<open>0, 1, ..., n - 1\<close> in registry order, so the weight returned is the position of
  the first matching group, it is below the number of groups exactly when some
  group matches, and a token no group matches gets a weight above that of every
  token some group matches.
\<close>

theorem resolveGroupWeight_first_match:
  "(\<forall>i < length groups. group_matches token (groups ! i) \<and> (\<forall>j < i. \<not> group_matches token (groups ! j))
        \<longrightarrow> resolveGroupWeight token groups = weight (groups ! i))
   \<and> ((\<forall>i < length groups. \<not> group_matches token (groups ! i))
        \<longrightarrow> resolveGroupWeight token groups = length groups)
   \<and> (compileGroupDefinitions E defs = Inr groups \<longrightarrow>
        length groups = length defs
        \<and> map weight groups = [0..<length defs]
        \<and> (\<forall>i < length groups. group_matches token (groups ! i) \<and> (\<forall>j < i. \<not> group_matches token (groups ! j))
              \<longrightarrow> resolveGroupWeight token groups = i)
        \<and> resolveGroupWeight token groups \<le> length groups
        \<and> ((resolveGroupWeight token groups < length groups) = (\<exists>i < length groups. group_matches token (groups ! i)))
        \<and> ((\<exists>i < length groups. group_matches token (groups ! i))
             \<and> (\<forall>i < length groups. \<not> group_matches other (groups ! i))
              \<longrightarrow> resolveGroupWeight token groups < resolveGroupWeight other groups))"
proof -
  have a: "\<And>i tok gs. i < length gs \<Longrightarrow> group_matches tok (gs ! i) \<Longrightarrow> (\<forall>j < i. \<not> group_matches tok (gs ! j))
        \<Longrightarrow> resolveGroupWeight tok gs = weight (gs ! i)"
  proof -
    fix i tok gs
    assume "i < length gs" "group_matches tok (gs ! i)" "\<forall>j < i. \<not> group_matches tok (gs ! j)"
    then have "resolve_loop tok gs = Some (weight (gs ! i))" by (intro resolve_loop_first) auto
    then show "resolveGroupWeight tok gs = weight (gs ! i)" by (simp add: resolveGroupWeight_def)
  qed
  have b: "\<And>tok gs. (\<forall>i < length gs. \<not> group_matches tok (gs ! i)) \<Longrightarrow> resolveGroupWeight tok gs = length gs"
  proof -
    fix tok gs
    assume "\<forall>i < length gs. \<not> group_matches tok (gs ! i)"
    then have "resolve_loop tok gs = None" by (simp only: resolve_loop_none)
    then show "resolveGroupWeight tok gs = length gs" by (simp add: resolveGroupWeight_def)
  qed
  have c: "compileGroupDefinitions E defs = Inr groups \<longrightarrow>
        length groups = length defs
        \<and> map weight groups = [0..<length defs]
        \<and> (\<forall>i < length groups. group_matches token (groups ! i) \<and> (\<forall>j < i. \<not> group_matches token (groups ! j))
              \<longrightarrow> resolveGroupWeight token groups = i)
        \<and> resolveGroupWeight token groups \<le> length groups
        \<and> ((resolveGroupWeight token groups < length groups) = (\<exists>i < length groups. group_matches token (groups ! i)))
        \<and> ((\<exists>i < length groups. group_matches token (groups ! i))
             \<and> (\<forall>i < length groups. \<not> group_matches other (groups ! i))
              \<longrightarrow> resolveGroupWeight token groups < resolveGroupWeight other groups)"
  proof
    assume comp: "compileGroupDefinitions E defs = Inr groups"
    note ok = compile_from_ok[OF comp[unfolded compileGroupDefinitions_def]]
    have len: "length groups = length defs" using ok by simp
    have w: "\<And>i. i < length groups \<Longrightarrow> weight (groups ! i) = i" using ok by simp
    have ws: "map weight groups = [0..<length defs]"
      using w len by (intro nth_equalityI) auto
    have first: "\<And>i. i < length groups \<Longrightarrow> group_matches token (groups ! i) \<Longrightarrow> (\<forall>j < i. \<not> group_matches token (groups ! j))
              \<Longrightarrow> resolveGroupWeight token groups = i"
      using a w by simp
    have lt: "(resolveGroupWeight token groups < length groups) = (\<exists>i < length groups. group_matches token (groups ! i))"
    proof (cases "\<exists>i < length groups. group_matches token (groups ! i)")
      case True
      from first_match_exists[OF True] obtain i where
        i: "i < length groups" "group_matches token (groups ! i)" "\<forall>j < i. \<not> group_matches token (groups ! j)"
        by blast
      then show ?thesis using first[of i] True by simp
    next
      case False
      then show ?thesis using b[of groups token] by simp
    qed
    have le: "resolveGroupWeight token groups \<le> length groups"
    proof (cases "\<exists>i < length groups. group_matches token (groups ! i)")
      case True
      then show ?thesis using lt by simp
    next
      case False
      then show ?thesis using b[of groups token] by simp
    qed
    have after: "(\<exists>i < length groups. group_matches token (groups ! i))
             \<and> (\<forall>i < length groups. \<not> group_matches other (groups ! i))
              \<longrightarrow> resolveGroupWeight token groups < resolveGroupWeight other groups"
      using lt b[of groups other] by auto
    show "length groups = length defs
        \<and> map weight groups = [0..<length defs]
        \<and> (\<forall>i < length groups. group_matches token (groups ! i) \<and> (\<forall>j < i. \<not> group_matches token (groups ! j))
              \<longrightarrow> resolveGroupWeight token groups = i)
        \<and> resolveGroupWeight token groups \<le> length groups
        \<and> ((resolveGroupWeight token groups < length groups) = (\<exists>i < length groups. group_matches token (groups ! i)))
        \<and> ((\<exists>i < length groups. group_matches token (groups ! i))
             \<and> (\<forall>i < length groups. \<not> group_matches other (groups ! i))
              \<longrightarrow> resolveGroupWeight token groups < resolveGroupWeight other groups)"
      using first by (intro conjI len ws le lt after) blast
  qed
  have a': "\<forall>i < length groups. group_matches token (groups ! i) \<and> (\<forall>j < i. \<not> group_matches token (groups ! j))
        \<longrightarrow> resolveGroupWeight token groups = weight (groups ! i)"
    using a[of _ groups token] by blast
  have b': "(\<forall>i < length groups. \<not> group_matches token (groups ! i))
        \<longrightarrow> resolveGroupWeight token groups = length groups"
    using b[of groups token] by blast
  show ?thesis
    by (intro conjI a' b' c)
qed

lemma parse_bg: "rx_parse ''^bg-'' =
    Some (RSeq RBol (RSeq (RChar CHR ''b'') (RSeq (RChar CHR ''g'') (RSeq (RChar CHR ''-'') REmpty))))"
  by code_simp

lemma parse_flex: "rx_parse ''^flex$'' =
    Some (RSeq RBol (RSeq (RChar CHR ''f'') (RSeq (RChar CHR ''l'') (RSeq (RChar CHR ''e'')
      (RSeq (RChar CHR ''x'') (RSeq REol REmpty))))))"
  by code_simp

lemma example_compiled: "compileGroupDefinitions fragment_engine example_definitions = Inr example_groups"
  by (simp add: compileGroupDefinitions_def example_definitions_def example_groups_def
      fragment_engine_def parse_bg parse_flex)

lemma ex_m0: "group_matches ''bg-red-500'' (example_groups ! 0)"
  unfolding group_matches_def example_groups_def by code_simp

lemma ex_m1: "\<not> group_matches ''flex'' (example_groups ! 0)"
  unfolding group_matches_def example_groups_def by code_simp

lemma ex_m2: "group_matches ''flex'' (example_groups ! 1)"
  unfolding group_matches_def example_groups_def by code_simp

lemma ex_m3: "\<not> group_matches ''prose'' (example_groups ! 0)"
  unfolding group_matches_def example_groups_def by code_simp

lemma ex_m4: "\<not> group_matches ''prose'' (example_groups ! 1)"
  unfolding group_matches_def example_groups_def by code_simp

theorem resolveGroupWeight_first_match_witness:
  "compileGroupDefinitions fragment_engine example_definitions = Inr example_groups
   \<and> length example_groups = 2
   \<and> map weight example_groups = [0, 1]
   \<and> resolveGroupWeight ''bg-red-500'' example_groups = 0
   \<and> resolveGroupWeight ''flex'' example_groups = 1
   \<and> resolveGroupWeight ''prose'' example_groups = 2
   \<and> resolveGroupWeight ''flex'' example_groups < resolveGroupWeight ''prose'' example_groups"
proof -
  have len: "length example_groups = 2" by (simp add: example_groups_def)
  have none: "\<forall>i < length example_groups. \<not> group_matches ''prose'' (example_groups ! i)"
    using ex_m3 ex_m4 len by (auto simp: less_Suc_eq numeral_2_eq_2)
  note T = resolveGroupWeight_first_match[where groups = example_groups and E = fragment_engine
      and defs = example_definitions]
  have a: "resolveGroupWeight ''bg-red-500'' example_groups = weight (example_groups ! 0)"
    using T[where token = "''bg-red-500''" and other = "''prose''"] ex_m0 len by auto
  have b: "resolveGroupWeight ''flex'' example_groups = 1"
    using T[where token = "''flex''" and other = "''prose''"] ex_m1 ex_m2 len example_compiled
    by (auto simp: less_Suc_eq)
  have c: "resolveGroupWeight ''prose'' example_groups = length example_groups"
    using T[where token = "''prose''" and other = "''prose''"] none by blast
  have d: "map weight example_groups = [0..<length example_definitions]"
    using T[where token = "''prose''" and other = "''prose''"] example_compiled by blast
  show ?thesis
    using a b c d len example_compiled
    by (simp add: example_groups_def example_definitions_def)
qed

section \<open>The formatter\<close>

lemma dropWhile_none: "(\<And>x. x \<in> set xs \<Longrightarrow> \<not> P x) \<Longrightarrow> dropWhile P xs = xs"
  by (cases xs) auto

lemma trim_no_space:
  assumes "\<And>c. c \<in> set v \<Longrightarrow> \<not> isWhiteSpace c"
  shows "trim v = v"
proof -
  have 1: "dropWhile isWhiteSpace v = v" using assms by (rule dropWhile_none)
  have 2: "dropWhile isWhiteSpace (rev v) = rev v" using assms by (intro dropWhile_none) simp
  show ?thesis by (simp add: trim_def 1 2)
qed

lemma replace_no_space:
  assumes "\<And>c. c \<in> set v \<Longrightarrow> \<not> isWhiteSpace c"
  shows "replace_WHITESPACE_RE v = v"
proof -
  have d: "dropWhile (\<lambda>c. \<not> isWhiteSpace c) v = []" using assms by simp
  show ?thesis unfolding replace_WHITESPACE_RE_def d by simp
qed

lemma split_space_no_space: "CHR '' '' \<notin> set v \<Longrightarrow> split_space v = [v]"
  by (induction v) auto

lemma collapse_no_space:
  assumes "\<And>c. c \<in> set v \<Longrightarrow> \<not> isWhiteSpace c"
  shows "collapseWhitespace v = v"
  using assms by (simp add: collapseWhitespace_def trim_no_space replace_no_space)

lemma tokens_one:
  assumes "\<And>c. c \<in> set v \<Longrightarrow> \<not> isWhiteSpace c" and "v \<noteq> []"
  shows "tokens_of v = [v]"
proof -
  have "CHR '' '' \<notin> set v" using assms(1) by (auto simp: isWhiteSpace_def)
  then show ?thesis using assms(2) by (simp add: tokens_of_def split_space_no_space)
qed

text \<open>
  Claim C5. \<open>formatWithGroups\<close> returns \<open>null\<close> when the collapsed value is empty.
  When the collapsed value is not empty and splits into at most one token, it
  returns \<open>null\<close> if collapsing left the value unchanged and the collapsed value
  otherwise. So a value that is one token, not empty and free of white space,
  gives \<open>null\<close>. This holds for every comparator, resolver and group list.
\<close>

theorem formatWithGroups_trivial:
  "(collapseWhitespace v = [] \<longrightarrow> formatWithGroups lc twMerge v groups = None)
   \<and> (collapseWhitespace v \<noteq> [] \<and> length (tokens_of (collapseWhitespace v)) \<le> 1 \<longrightarrow>
        formatWithGroups lc twMerge v groups
          = (if collapseWhitespace v = v then None else Some (collapseWhitespace v)))
   \<and> (v \<noteq> [] \<and> (\<forall>c \<in> set v. \<not> isWhiteSpace c) \<longrightarrow> formatWithGroups lc twMerge v groups = None)"
proof (intro conjI impI)
  assume "collapseWhitespace v = []"
  then show "formatWithGroups lc twMerge v groups = None"
    by (simp add: formatWithGroups_def)
next
  assume "collapseWhitespace v \<noteq> [] \<and> length (tokens_of (collapseWhitespace v)) \<le> 1"
  then show "formatWithGroups lc twMerge v groups
          = (if collapseWhitespace v = v then None else Some (collapseWhitespace v))"
    by (simp add: formatWithGroups_def Let_def)
next
  assume a: "v \<noteq> [] \<and> (\<forall>c \<in> set v. \<not> isWhiteSpace c)"
  then have c: "collapseWhitespace v = v" by (intro collapse_no_space) simp
  have t: "tokens_of v = [v]" using a by (intro tokens_one) simp_all
  show "formatWithGroups lc twMerge v groups = None"
    using a by (simp add: formatWithGroups_def Let_def c t)
qed

theorem formatWithGroups_trivial_witness:
  "collapseWhitespace ''   '' = []
   \<and> formatWithGroups codeUnitCompare twMerge_no_conflict ''   '' [] = None
   \<and> collapseWhitespace '' flex '' = ''flex''
   \<and> length (tokens_of ''flex'') \<le> 1
   \<and> formatWithGroups codeUnitCompare twMerge_no_conflict '' flex '' [] = Some ''flex''
   \<and> formatWithGroups codeUnitCompare twMerge_no_conflict ''flex'' [] = None"
proof -
  have 1: "collapseWhitespace ''   '' = []" by code_simp
  have 2: "collapseWhitespace '' flex '' = ''flex''" by code_simp
  have 3: "length (tokens_of ''flex'') \<le> 1" by code_simp
  have 4: "\<forall>c \<in> set ''flex''. \<not> isWhiteSpace c" by code_simp
  note T = formatWithGroups_trivial[where lc = codeUnitCompare and twMerge = twMerge_no_conflict and groups = "[]"]
  have a: "formatWithGroups codeUnitCompare twMerge_no_conflict ''   '' [] = None"
    using T[where v = "''   ''"] 1 by blast
  have b: "formatWithGroups codeUnitCompare twMerge_no_conflict '' flex '' [] = Some ''flex''"
    using T[where v = "'' flex ''"] 2 3 by simp
  have c: "formatWithGroups codeUnitCompare twMerge_no_conflict ''flex'' [] = None"
    using T[where v = "''flex''"] 4 by blast
  show ?thesis by (intro conjI 1 2 3 a b c)
qed

text \<open>
  Claim C4. \<open>WHITESPACE_RE\<close> has no \<open>g\<close> flag, so \<open>collapseWhitespace\<close> rewrites the
  first run of white space only: \<open>a  b  c\<close> (two spaces twice) becomes \<open>a b  c\<close>,
  which still has two adjacent spaces. The example of the claim has one interior
  run and comes out collapsed.
\<close>

theorem collapseWhitespace_first_run_only:
  "collapseWhitespace ''a  b  c'' = ''a b  c''
   \<and> collapseWhitespace ''  flex   gap-4  '' = ''flex gap-4''"
  by code_simp

text \<open>
  Claim C6. With the default groups and a resolver without conflicts, the value
  \<open>gap-2\<close>, two spaces, \<open>flex\<close>, TAB, \<open>mt-4\<close> formats to \<open>gap-2 flex mt-4\<close>: the TAB
  is in the second run of white space, \<open>collapseWhitespace\<close> leaves it, and
  \<open>flex\<close>-TAB-\<open>mt-4\<close> is sorted as one unclassified token. Formatting the result
  again gives \<open>flex gap-2 mt-4\<close>, not \<open>null\<close>.
\<close>

theorem format_not_idempotent:
  "formatClassString fragment_engine codeUnitCompare twMerge_no_conflict
       (''gap-2  flex'' @ [CHR 0x09] @ ''mt-4'') None = Inr (Some ''gap-2 flex mt-4'')
   \<and> formatClassString fragment_engine codeUnitCompare twMerge_no_conflict
       ''gap-2 flex mt-4'' None = Inr (Some ''flex gap-2 mt-4'')"
  by code_simp

section \<open>The parenthesis scanner\<close>

lemma slice_Suc:
  "opn < i \<Longrightarrow> i < length t \<Longrightarrow> slice t (Suc opn) (Suc i) = slice t (Suc opn) i @ [t ! i]"
proof -
  assume a: "opn < i" "i < length t"
  have "take (Suc (i - Suc opn)) (drop (Suc opn) t) = take (i - Suc opn) (drop (Suc opn) t) @ [drop (Suc opn) t ! (i - Suc opn)]"
    using a by (intro take_Suc_conv_app_nth) simp
  moreover have "drop (Suc opn) t ! (i - Suc opn) = t ! i" using a by simp
  moreover have "Suc i - Suc opn = Suc (i - Suc opn)" using a by simp
  ultimately show ?thesis by (simp add: slice_def)
qed

lemma quote_state_Suc:
  "opn < i \<Longrightarrow> i < length t \<Longrightarrow> quote_state t opn (Suc i) = quote_step (quote_state t opn i) (t ! i)"
  by (simp add: quote_state_def slice_Suc)

lemma quote_state_start: "quote_state t opn (Suc opn) = (None, False)"
  by (simp add: quote_state_def slice_def)

lemma count_code_Suc:
  "opn < i \<Longrightarrow> count_code t opn (Suc i) c = count_code t opn i c + (if t ! i = c \<and> in_code t opn i then 1 else 0)"
  by (simp add: count_code_def)

lemma depth_at_Suc:
  "opn < i \<Longrightarrow> depth_at t opn (Suc i) =
     depth_at t opn i + (if t ! i = CHR ''('' \<and> in_code t opn i then 1 else 0)
                      - (if t ! i = CHR '')'' \<and> in_code t opn i then 1 else 0)"
  by (simp add: depth_at_def count_code_Suc)

lemma depth_at_start: "depth_at t opn (Suc opn) = 1"
  by (simp add: depth_at_def count_code_def)

lemma loop_spec:
  "opn < i \<Longrightarrow> depth = depth_at t opn i \<Longrightarrow> (inString, escaped) = quote_state t opn i
   \<Longrightarrow> (\<And>j. j < i \<Longrightarrow> \<not> closes t opn j)
   \<Longrightarrow> (case findMatchingParen_loop t i depth inString escaped of
          Some k \<Rightarrow> closes t opn k \<and> (\<forall>j < k. \<not> closes t opn j)
        | None \<Rightarrow> (\<forall>k. \<not> closes t opn k))"
proof (induction t i depth inString escaped rule: findMatchingParen_loop.induct)
  case (1 t i depth inString escaped)
  show ?case
  proof (cases "i < length t")
    case False
    have "\<And>k. \<not> closes t opn k"
    proof -
      fix k show "\<not> closes t opn k"
      proof (cases "k < i")
        case True then show ?thesis using "1.prems"(4) by simp
      next
        case False then show ?thesis using \<open>\<not> i < length t\<close> by (simp add: closes_def)
      qed
    qed
    then show ?thesis using False by (subst findMatchingParen_loop.simps) simp
  next
    case True
    note qs = quote_state_Suc[OF "1.prems"(1) True, folded "1.prems"(3)]
    note ds = depth_at_Suc[OF "1.prems"(1), of t, folded "1.prems"(2)]
    have ic: "in_code t opn i = (inString = None)"
      using "1.prems"(3) by (simp add: in_code_def) (metis fst_conv)
    have cl: "closes t opn i = (t ! i = CHR '')'' \<and> inString = None \<and> depth = 1)"
      using True "1.prems"(1,2) ic by (auto simp: closes_def)
    have nxt: "\<not> closes t opn i \<Longrightarrow> (\<And>j. j < Suc i \<Longrightarrow> \<not> closes t opn j)"
      using "1.prems"(4) less_Suc_eq by auto
    show ?thesis
    proof (cases inString)
      case (Some q)
      have nc: "\<not> closes t opn i" using cl Some by simp
      have "case findMatchingParen_loop t (i + 1) depth (if \<not> escaped \<and> t ! i = q then None else Some q)
                 (\<not> escaped \<and> t ! i = CHR 0x5C) of
          Some k \<Rightarrow> closes t opn k \<and> (\<forall>j < k. \<not> closes t opn j)
        | None \<Rightarrow> (\<forall>k. \<not> closes t opn k)"
      proof (rule "1.IH"(5)[OF True refl Some])
        show "opn < i + 1" using "1.prems"(1) by simp
        show "depth = depth_at t opn (i + 1)" using ds ic Some by simp
        show "(if \<not> escaped \<and> t ! i = q then None else Some q, \<not> escaped \<and> t ! i = CHR 0x5C) = quote_state t opn (i + 1)"
          using qs Some by simp
        show "\<And>j. j < i + 1 \<Longrightarrow> \<not> closes t opn j" using nxt[OF nc] by simp
      qed
      then show ?thesis using True Some by (subst findMatchingParen_loop.simps) (simp add: Let_def)
    next
      case None
      show ?thesis
      proof (cases "isQuote (t ! i)")
        case q: True
        have nc: "\<not> closes t opn i" using cl q by (auto simp: isQuote_def)
        have "case findMatchingParen_loop t (i + 1) depth (Some (t ! i)) False of
            Some k \<Rightarrow> closes t opn k \<and> (\<forall>j < k. \<not> closes t opn j)
          | None \<Rightarrow> (\<forall>k. \<not> closes t opn k)"
        proof (rule "1.IH"(1)[OF True refl None q])
          show "opn < i + 1" using "1.prems"(1) by simp
          show "depth = depth_at t opn (i + 1)" using ds ic None q by (auto simp: isQuote_def)
          show "(Some (t ! i), False) = quote_state t opn (i + 1)" using qs None q by simp
          show "\<And>j. j < i + 1 \<Longrightarrow> \<not> closes t opn j" using nxt[OF nc] by simp
        qed
        then show ?thesis using True None q by (subst findMatchingParen_loop.simps) (simp add: Let_def)
      next
        case nq: False
        show ?thesis
        proof (cases "t ! i = CHR ''(''")
          case op: True
          have nc: "\<not> closes t opn i" using cl op by simp
          have "case findMatchingParen_loop t (i + 1) (depth + 1) None escaped of
              Some k \<Rightarrow> closes t opn k \<and> (\<forall>j < k. \<not> closes t opn j)
            | None \<Rightarrow> (\<forall>k. \<not> closes t opn k)"
          proof (rule "1.IH"(2)[OF True refl None nq op])
            show "opn < i + 1" using "1.prems"(1) by simp
            show "depth + 1 = depth_at t opn (i + 1)" using ds ic None op by simp
            show "(None, escaped) = quote_state t opn (i + 1)" using qs None nq by simp
            show "\<And>j. j < i + 1 \<Longrightarrow> \<not> closes t opn j" using nxt[OF nc] by simp
          qed
          then show ?thesis using True None nq op by (subst findMatchingParen_loop.simps) (simp add: Let_def)
        next
          case nop: False
          show ?thesis
          proof (cases "t ! i = CHR '')''")
            case cp: True
            show ?thesis
            proof (cases "depth - 1 = 0")
              case z: True
              then have "closes t opn i" using cl cp None by simp
              then show ?thesis using True None nq nop cp z "1.prems"(4)
                by (subst findMatchingParen_loop.simps) (simp add: Let_def)
            next
              case nz: False
              have nc: "\<not> closes t opn i" using cl nz by simp
              have "case findMatchingParen_loop t (i + 1) (depth - 1) None escaped of
                  Some k \<Rightarrow> closes t opn k \<and> (\<forall>j < k. \<not> closes t opn j)
                | None \<Rightarrow> (\<forall>k. \<not> closes t opn k)"
              proof (rule "1.IH"(3)[OF True refl None nq nop cp nz])
                show "opn < i + 1" using "1.prems"(1) by simp
                show "depth - 1 = depth_at t opn (i + 1)" using ds ic None cp by simp
                show "(None, escaped) = quote_state t opn (i + 1)" using qs None nq by simp
                show "\<And>j. j < i + 1 \<Longrightarrow> \<not> closes t opn j" using nxt[OF nc] by simp
              qed
              then show ?thesis using True None nq nop cp nz
                by (subst findMatchingParen_loop.simps) (simp add: Let_def)
            qed
          next
            case ncp: False
            have nc: "\<not> closes t opn i" using cl ncp by simp
            have "case findMatchingParen_loop t (i + 1) depth None escaped of
                Some k \<Rightarrow> closes t opn k \<and> (\<forall>j < k. \<not> closes t opn j)
              | None \<Rightarrow> (\<forall>k. \<not> closes t opn k)"
            proof (rule "1.IH"(4)[OF True refl None nq nop ncp])
              show "opn < i + 1" using "1.prems"(1) by simp
              show "depth = depth_at t opn (i + 1)" using ds ic None nop ncp by simp
              show "(None, escaped) = quote_state t opn (i + 1)" using qs None nq by simp
              show "\<And>j. j < i + 1 \<Longrightarrow> \<not> closes t opn j" using nxt[OF nc] by simp
            qed
            then show ?thesis using True None nq nop ncp
              by (subst findMatchingParen_loop.simps) (simp add: Let_def)
          qed
        qed
      qed
    qed
  qed
qed

lemma first_close:
  "(findMatchingParenIndex t opn = Some i) = (closes t opn i \<and> (\<forall>j < i. \<not> closes t opn j))"
proof -
  have spec: "case findMatchingParenIndex t opn of
        Some k \<Rightarrow> closes t opn k \<and> (\<forall>j < k. \<not> closes t opn j)
      | None \<Rightarrow> (\<forall>k. \<not> closes t opn k)"
    unfolding findMatchingParenIndex_def
    using loop_spec[of opn "opn + 1" 1 t None False]
    by (simp add: depth_at_start quote_state_start closes_def)
  show ?thesis
  proof
    assume "findMatchingParenIndex t opn = Some i"
    then show "closes t opn i \<and> (\<forall>j < i. \<not> closes t opn j)" using spec by simp
  next
    assume a: "closes t opn i \<and> (\<forall>j < i. \<not> closes t opn j)"
    show "findMatchingParenIndex t opn = Some i"
    proof (cases "findMatchingParenIndex t opn")
      case None
      then show ?thesis using spec a by simp
    next
      case (Some k)
      then have k: "closes t opn k" "\<forall>j < k. \<not> closes t opn j" using spec by simp_all
      have "\<not> k < i" using a k(1) by blast
      moreover have "\<not> i < k" using a k(2) by blast
      ultimately have "k = i" by simp
      then show ?thesis using Some by simp
    qed
  qed
qed

lemma no_close:
  "(findMatchingParenIndex t opn = None) = (\<forall>k. \<not> closes t opn k)"
proof
  assume n: "findMatchingParenIndex t opn = None"
  show "\<forall>k. \<not> closes t opn k"
    using loop_spec[of opn "opn + 1" 1 t None False] n
    by (simp add: findMatchingParenIndex_def depth_at_start quote_state_start closes_def)
next
  assume a: "\<forall>k. \<not> closes t opn k"
  show "findMatchingParenIndex t opn = None"
  proof (cases "findMatchingParenIndex t opn")
    case None then show ?thesis .
  next
    case (Some k)
    then have "closes t opn k" using first_close[of t opn k] by simp
    then show ?thesis using a by simp
  qed
qed

lemma cn_close: "findMatchingParenIndex cn_call 2 = Some 54"
  by code_simp

lemma cn_extract:
  "applyRegexEntry fragment_engine cn_call (DEFAULT_CLASS_REGEX ! 2)
     = Inr [\<lparr> rng = (4, 40), val = ''relative size-full  rounded text-sm '' \<rparr>]"
  by code_simp

lemma cn_format:
  "formatClassString fragment_engine codeUnitCompare twMerge_no_conflict
      ''relative size-full  rounded text-sm '' None = Inr (Some ''relative size-full text-sm rounded'')"
  by code_simp

text \<open>
  Claim C7. \<open>findMatchingParenIndex\<close> returns the first position after the opening
  parenthesis that holds a closing parenthesis outside every quoted region
  (double quote, single quote, backtick; a backslash inside a region escapes the
  next character) at which the nesting depth, counted outside quoted regions,
  returns to zero; it returns \<open>-1\<close> exactly when there is no such position. The
  argument region that \<open>applyRegexEntry\<close> hands to the inner pattern is the text
  between the first opening parenthesis of the outer match and that position. On
  \<open>cn('relative size-full  rounded text-sm ', props.class)\<close> with the default \<open>cn\<close>
  locator the region ends at the last character, exactly one match is emitted,
  the first quoted literal, and it formats to \<open>relative size-full text-sm rounded\<close>.
\<close>

theorem findMatchingParenIndex_first_close:
  "((findMatchingParenIndex t opn = Some i) = (closes t opn i \<and> (\<forall>j < i. \<not> closes t opn j)))
   \<and> ((findMatchingParenIndex t opn = None) = (\<forall>k. \<not> closes t opn k))
   \<and> (indexOf (m_full m) ''('' = Some openRel
        \<and> findMatchingParenIndex t (m_index m + openRel) = Some closeAbs \<longrightarrow>
        process_outer_match (Some r) t m
          = processInnerMatches (slice t (m_index m + openRel + 1) closeAbs) r (m_index m + openRel + 1) t)
   \<and> findMatchingParenIndex cn_call 2 = Some 54
   \<and> applyRegexEntry fragment_engine cn_call (DEFAULT_CLASS_REGEX ! 2)
        = Inr [\<lparr> rng = (4, 40), val = ''relative size-full  rounded text-sm '' \<rparr>]
   \<and> formatClassString fragment_engine codeUnitCompare twMerge_no_conflict
        ''relative size-full  rounded text-sm '' None = Inr (Some ''relative size-full text-sm rounded'')"
proof -
  have p: "indexOf (m_full m) ''('' = Some openRel
        \<and> findMatchingParenIndex t (m_index m + openRel) = Some closeAbs \<longrightarrow>
        process_outer_match (Some r) t m
          = processInnerMatches (slice t (m_index m + openRel + 1) closeAbs) r (m_index m + openRel + 1) t"
    by (simp add: process_outer_match_def Let_def)
  show ?thesis
    by (intro conjI first_close no_close p cn_close cn_extract cn_format)
qed

theorem findMatchingParenIndex_first_close_witness:
  "findMatchingParenIndex cn_call 2 = Some 54
   \<and> closes cn_call 2 54
   \<and> \<not> closes cn_call 2 40
   \<and> indexOf (m_full cn_outer_match) ''('' = Some 2
   \<and> process_outer_match (Some (the (fragment_engine STRING_ARGUMENT_REGEX))) cn_call cn_outer_match
       = processInnerMatches (slice cn_call 3 54) (the (fragment_engine STRING_ARGUMENT_REGEX)) 3 cn_call"
proof -
  note T = findMatchingParenIndex_first_close[where t = cn_call and opn = 2 and i = 54
      and m = cn_outer_match and openRel = 2 and closeAbs = 54
      and r = "the (fragment_engine STRING_ARGUMENT_REGEX)"]
  have c: "findMatchingParenIndex cn_call 2 = Some 54" by code_simp
  have i: "indexOf (m_full cn_outer_match) ''('' = Some 2" by code_simp
  have mi: "m_index cn_outer_match + 2 = 2" by (simp add: cn_outer_match_def)
  have e: "(findMatchingParenIndex cn_call 2 = Some 54)
      = (closes cn_call 2 54 \<and> (\<forall>j < 54. \<not> closes cn_call 2 j))"
    using T by (elim conjE) assumption
  have cl: "closes cn_call 2 54 \<and> (\<forall>j < 54. \<not> closes cn_call 2 j)"
    by (rule iffD1[OF e c])
  have n40: "\<not> closes cn_call 2 40" using cl by simp
  have p: "indexOf (m_full cn_outer_match) ''('' = Some 2
        \<and> findMatchingParenIndex cn_call (m_index cn_outer_match + 2) = Some 54 \<longrightarrow>
        process_outer_match (Some (the (fragment_engine STRING_ARGUMENT_REGEX))) cn_call cn_outer_match
          = processInnerMatches (slice cn_call (m_index cn_outer_match + 2 + 1) 54)
              (the (fragment_engine STRING_ARGUMENT_REGEX)) (m_index cn_outer_match + 2 + 1) cn_call"
    using T by (elim conjE) assumption
  have c': "findMatchingParenIndex cn_call (m_index cn_outer_match + 2) = Some 54"
    unfolding mi by (rule c)
  have mi3: "m_index cn_outer_match + 2 + 1 = 3" by (simp add: cn_outer_match_def)
  have p'': "process_outer_match (Some (the (fragment_engine STRING_ARGUMENT_REGEX))) cn_call cn_outer_match
       = processInnerMatches (slice cn_call 3 54) (the (fragment_engine STRING_ARGUMENT_REGEX)) 3 cn_call"
    using mp[OF p conjI[OF i c']] unfolding mi3 .
  show ?thesis using cl by (intro conjI c i n40 p'') simp
qed

section \<open>Inner matches and repeated ranges\<close>

text \<open>
  Claim C8. \<open>findCaptureOffset\<close> takes the first occurrence of the captured text in
  the full inner match for the place where group 1 captured. On
  \<open>cn({'b a': 'b a'})\<close> with the inner pattern \<open>'[^']*': '([^']+)'\<close> the inner match
  starts at index 1 of the argument region and group 1 captures \<open>b a\<close> at index 9 of
  the region, position 12 of the text (the value). The match emitted has the text
  of the capture as its value, and the range \<open>(5, 8)\<close>: the key.
\<close>

theorem capture_offset_first_occurrence:
  "map_option (\<lambda>r. RegExp_exec r (slice object_call 3 17) 0) (fragment_engine object_value_pattern)
     = Some (Some \<lparr> m_index = 1,
                     m_full = [CHR 0x27] @ ''b a'' @ [CHR 0x27] @ '': '' @ [CHR 0x27] @ ''b a'' @ [CHR 0x27],
                     m_group1 = Some ''b a'', m_group1_index = Some 9 \<rparr>)
   \<and> map_option (\<lambda>r. processInnerMatches (slice object_call 3 17) r 3 object_call)
        (fragment_engine object_value_pattern)
     = Some [\<lparr> rng = (5, 8), val = ''b a'' \<rparr>]
   \<and> applyRegexEntry fragment_engine object_call (Pair (call_pattern ''cn'') object_value_pattern)
     = Inr [\<lparr> rng = (5, 8), val = ''b a'' \<rparr>]"
  by code_simp








section \<open>Compiling group definitions\<close>

lemma find_append_case:
  "find P (xs @ ys) = (case find P xs of Some x \<Rightarrow> Some x | None \<Rightarrow> find P ys)"
  by (induction xs) auto

lemma compile_matchers_result:
  "compile_matchers E ps =
     (case find (\<lambda>p. E p = None) ps of
        Some p \<Rightarrow> Inl (SyntaxError p)
      | None \<Rightarrow> Inr (map (\<lambda>p. the (E p)) ps))"
  by (induction ps) (auto split: option.splits sum.splits)

lemma compile_from_result:
  "compile_from E k defs =
     (case first_invalid E defs of
        Some p \<Rightarrow> Inl (SyntaxError p)
      | None \<Rightarrow> Inr (map (\<lambda>(i, d). compiled_at E i d) (enumerate k defs)))"
proof (induction defs arbitrary: k)
  case Nil
  then show ?case by (simp add: first_invalid_def)
next
  case (Cons d ds)
  have fi: "first_invalid E (d # ds) =
      (case find (\<lambda>p. E p = None) (matchers d) of Some x \<Rightarrow> Some x | None \<Rightarrow> first_invalid E ds)"
    by (simp add: first_invalid_def find_append_case split: option.splits)
  show ?case
    using Cons.IH[of "Suc k"]
    by (simp add: fi compile_matchers_result compiled_at_def[symmetric] split: option.splits)
qed

text \<open>
  Claim C10, as amended. \<open>compileGroupDefinitions\<close> fails exactly when some matcher
  string is rejected by the engine, with the \<open>SyntaxError\<close> of \<open>new RegExp\<close> for the
  first such string in definition order and then matcher order; the error carries
  the pattern, not the group. When every matcher string is accepted it returns
  one compiled group per definition, in order, with weight equal to the position.
  The failure happens when the formatter is created: with default definitions
  that compile, \<open>createClassFormatter\<close> on custom definitions with a rejected matcher
  returns the error and no formatter, so nothing is matched.
\<close>

theorem compileGroupDefinitions_syntax_error:
  "compileGroupDefinitions E defs =
     (case first_invalid E defs of
        Some p \<Rightarrow> Inl (SyntaxError p)
      | None \<Rightarrow> Inr (map (\<lambda>(i, d). compiled_at E i d) (enumerate 0 defs)))
   \<and> (first_invalid E defs = None \<longrightarrow>
        (\<exists>groups. compileGroupDefinitions E defs = Inr groups
           \<and> length groups = length defs \<and> map weight groups = [0..<length defs]))
   \<and> (first_invalid E defaultGroupDefinitions = None \<and> defs \<noteq> [] \<and> first_invalid E defs = Some p \<longrightarrow>
        createClassFormatter E lc twMerge (Some defs) = Inl (SyntaxError p)
        \<and> formatClassString E lc twMerge v (Some defs) = Inl (SyntaxError p))"
proof -
  have a: "compileGroupDefinitions E ds =
     (case first_invalid E ds of
        Some p \<Rightarrow> Inl (SyntaxError p)
      | None \<Rightarrow> Inr (map (\<lambda>(i, d). compiled_at E i d) (enumerate 0 ds)))" for ds
    by (simp add: compileGroupDefinitions_def compile_from_result)
  have w: "map weight (map (\<lambda>(i, d). compiled_at E i d) (enumerate 0 defs)) = [0..<length defs]"
    by (intro nth_equalityI) (simp_all add: nth_enumerate_eq compiled_at_def)
  have b: "first_invalid E defs = None \<longrightarrow>
        (\<exists>groups. compileGroupDefinitions E defs = Inr groups
           \<and> length groups = length defs \<and> map weight groups = [0..<length defs])"
    using w by (simp add: a)
  have c: "first_invalid E defaultGroupDefinitions = None \<and> defs \<noteq> [] \<and> first_invalid E defs = Some p \<longrightarrow>
        createClassFormatter E lc twMerge (Some defs) = Inl (SyntaxError p)
        \<and> formatClassString E lc twMerge v (Some defs) = Inl (SyntaxError p)"
    by (simp add: createClassFormatter_def formatClassString_def a)
  show ?thesis by (intro conjI a b c)
qed

lemma layout_invalid:
  "first_invalid fragment_engine [\<lparr> name = ''layout'', matchers = [''(flex''] \<rparr>] = Some ''(flex''"
  unfolding first_invalid_def by code_simp

lemma spacing_invalid:
  "first_invalid fragment_engine [\<lparr> name = ''spacing'', matchers = [''(flex''] \<rparr>] = Some ''(flex''"
  unfolding first_invalid_def by code_simp

text \<open>
  Claim C10, as stated, fails on the kind of the error: for the matcher \<open>(flex\<close> the
  error is the same \<open>SyntaxError\<close> whether the group is called \<open>layout\<close> or
  \<open>spacing\<close>, and it is not a \<open>PatternCompileError\<close> naming the group.
\<close>

theorem compile_error_is_SyntaxError:
  "compileGroupDefinitions fragment_engine [\<lparr> name = ''layout'', matchers = [''(flex''] \<rparr>]
     = Inl (SyntaxError ''(flex'')
   \<and> compileGroupDefinitions fragment_engine [\<lparr> name = ''spacing'', matchers = [''(flex''] \<rparr>]
     = Inl (SyntaxError ''(flex'')
   \<and> compileGroupDefinitions fragment_engine [\<lparr> name = ''layout'', matchers = [''(flex''] \<rparr>]
     \<noteq> Inl (PatternCompileError ''layout'' ''(flex'')"
  by (simp add: compileGroupDefinitions_def compile_from_result layout_invalid spacing_invalid)

lemma defaults_valid: "first_invalid fragment_engine defaultGroupDefinitions = None"
  unfolding first_invalid_def by code_simp

lemma example_valid: "first_invalid fragment_engine example_definitions = None"
  unfolding first_invalid_def by code_simp

lemma broken_invalid: "first_invalid fragment_engine broken_definitions = Some ''(flex''"
  unfolding first_invalid_def by code_simp

theorem compileGroupDefinitions_syntax_error_witness:
  "first_invalid fragment_engine example_definitions = None
   \<and> (\<exists>groups. compileGroupDefinitions fragment_engine example_definitions = Inr groups
         \<and> length groups = length example_definitions
         \<and> map weight groups = [0..<length example_definitions])
   \<and> first_invalid fragment_engine defaultGroupDefinitions = None
   \<and> broken_definitions \<noteq> []
   \<and> first_invalid fragment_engine broken_definitions = Some ''(flex''
   \<and> createClassFormatter fragment_engine codeUnitCompare twMerge_no_conflict (Some broken_definitions)
       = Inl (SyntaxError ''(flex'')
   \<and> formatClassString fragment_engine codeUnitCompare twMerge_no_conflict ''flex'' (Some broken_definitions)
       = Inl (SyntaxError ''(flex'')"
proof -
  have ne: "broken_definitions \<noteq> []" by (simp add: broken_definitions_def)
  have 1: "first_invalid fragment_engine example_definitions = None \<longrightarrow>
      (\<exists>groups. compileGroupDefinitions fragment_engine example_definitions = Inr groups
         \<and> length groups = length example_definitions
         \<and> map weight groups = [0..<length example_definitions])"
    by (rule compileGroupDefinitions_syntax_error[where E = fragment_engine and defs = example_definitions,
          THEN conjunct2, THEN conjunct1])
  have 2: "first_invalid fragment_engine defaultGroupDefinitions = None \<and> broken_definitions \<noteq> []
        \<and> first_invalid fragment_engine broken_definitions = Some ''(flex'' \<longrightarrow>
      createClassFormatter fragment_engine codeUnitCompare twMerge_no_conflict (Some broken_definitions)
        = Inl (SyntaxError ''(flex'')
      \<and> formatClassString fragment_engine codeUnitCompare twMerge_no_conflict ''flex'' (Some broken_definitions)
        = Inl (SyntaxError ''(flex'')"
    by (rule compileGroupDefinitions_syntax_error[where E = fragment_engine and defs = broken_definitions
        and p = "''(flex''" and lc = codeUnitCompare and twMerge = twMerge_no_conflict and v = "''flex''",
          THEN conjunct2, THEN conjunct2])
  note r1 = mp[OF 1 example_valid]
  note r2 = mp[OF 2 conjI[OF defaults_valid conjI[OF ne broken_invalid]]]
  show ?thesis
    by (intro conjI example_valid r1 defaults_valid ne broken_invalid r2[THEN conjunct1] r2[THEN conjunct2])
qed

end
